theory Spec2Isabelle
  imports Main
begin

section \<open>Data model\<close>

text \<open>
  The transfer service of the repository (class \<open>TransferService\<close>) moves an amount from
  the account of a sender to the account of a receiver inside one datastore transaction,
  retries the transaction on a serialization conflict, and lists stored transfers.

  Monetary values are the source's \<open>number\<close>s; they are modelled as integers (minor
  units), identifiers as naturals, instants of time as naturals (milliseconds).
\<close>

record account =
  account_id :: nat
  balance :: int

text \<open>A user as the user service returns it: the \<open>account\<close> relation is there when it was
  loaded and the row has one.\<close>

record user =
  user_id :: nat
  username :: string
  account :: "account option"

text \<open>A row of the user table; the account is referenced by its identifier.\<close>

record user_row =
  row_id :: nat
  row_username :: string
  row_account :: "nat option"

text \<open>The entity that \<open>transferRepo.create\<close> builds (no creation time yet), and the stored
  transfer, which the datastore stamps with \<open>createdAt\<close> when it is saved.\<close>

record transfer_draft =
  sender :: user
  receiver :: user
  amount :: int
  reference :: string
  balanceBefore :: int
  balanceAfter :: int

record transfer = transfer_draft +
  createdAt :: nat

text \<open>\<open>InitiateTransferInput\<close>: the sender's user id, the receiver's username, the amount.\<close>

record initiate_transfer_input =
  inp_sender :: nat
  inp_receiver :: string
  inp_amount :: int

subsection \<open>Errors\<close>

text \<open>
  \<open>RecipientNotFound\<close> is the source's \<open>BadRequestException('Recipient not found')\<close>;
  \<open>InsufficientFunds\<close> and \<open>AccountNotFound\<close> are the failures of the account service;
  \<open>TypeError\<close> is JavaScript's error on reading a property of \<open>null\<close> or \<open>undefined\<close>;
  \<open>DriverError c\<close> is a failure raised by the datastore, whose \<open>code\<close> property is the
  SQLSTATE \<open>c\<close>. Only a datastore failure has a \<open>code\<close>.
\<close>

datatype error =
    RecipientNotFound
  | InsufficientFunds
  | AccountNotFound
  | TypeError
  | DriverError string

fun error_code :: "error \<Rightarrow> string option" where
  "error_code (DriverError c) = Some c"
| "error_code _ = None"

subsection \<open>The world: datastore, environment and an observation trace\<close>

text \<open>
  What the datastore does to a transaction under concurrency is not decided by the
  program. It is an input of the model: \<open>script\<close> lists, for each coming transaction,
  whether the datastore lets it through (\<open>NoFault\<close>) or fails one of its steps with a
  driver error of a given SQLSTATE.
\<close>

datatype step = OnDebit | OnCredit | OnSave | OnCommit

datatype fault = NoFault | Fail step string

subsection \<open>The random source\<close>

text \<open>
  The library \<open>randomstring\<close> builds a string from random bytes. Its character set
  \<open>alphanumeric\<close> has 62 characters; a byte is used only when it is below
  \<open>maxByte = 256 - 256 % 62 = 248\<close>, so that every character is equally likely.
\<close>

definition alphanumeric :: string where
  "alphanumeric = ''0123456789abcdefghijklmnopqrstuvwxyzABCDEFGHIJKLMNOPQRSTUVWXYZ''"

definition maxByte :: nat where
  "maxByte = 256 - 256 mod length alphanumeric"

text \<open>The source of random bytes is an input of the model: byte \<open>i\<close> of the stream is
  \<open>Rep_entropy e i mod 256\<close>. The streams are those in which a usable byte always comes
  again (a source that yields bytes of 248 and above for ever would keep \<open>generate\<close> in its
  loop; with random bytes this has probability 0).\<close>

typedef entropy = "{r :: nat \<Rightarrow> nat. \<forall>p. \<exists>q\<ge>p. r q mod 256 < maxByte}"
  by (rule exI [of _ "\<lambda>_. 0"]) (auto simp: maxByte_def alphanumeric_def)

text \<open>\<open>randomBytes(n)\<close> when the source stands at position \<open>pos\<close>.\<close>

definition randomBytes :: "entropy \<Rightarrow> nat \<Rightarrow> nat \<Rightarrow> nat list" where
  "randomBytes e pos n = map (\<lambda>i. Rep_entropy e i mod 256) [pos..<pos + n]"

text \<open>\<open>processString(buf, initialString, chars, reqLen, maxByte)\<close>: the bytes of the buffer
  are read in order until the string has the requested length; a byte below \<open>maxByte\<close>
  appends \<open>chars.charAt(randomByte % chars.length)\<close>, any other byte is dropped.\<close>

fun processString :: "nat list \<Rightarrow> string \<Rightarrow> string \<Rightarrow> nat \<Rightarrow> nat \<Rightarrow> string" where
  "processString [] initialString chars reqLen maxB = initialString"
| "processString (randomByte # buf) string chars reqLen maxB =
     (if length string < reqLen
      then processString buf
             (if randomByte < maxB then string @ [chars ! (randomByte mod length chars)] else string)
             chars reqLen maxB
      else string)"

text \<open>\<open>Math.ceil(length * 256 / maxByte)\<close>, the number of bytes fetched at a time: 13 for
  the length 12.\<close>

definition batch :: "nat \<Rightarrow> nat" where
  "batch len = (len * 256 + maxByte - 1) div maxByte"

text \<open>The loop of \<open>generate\<close>:
  \<open>while (string.length < length) { buf = randomBytes(...); string = processString(...) }\<close>.
  It returns the string and the position of the source after the last fetch.\<close>

function generate_while :: "entropy \<Rightarrow> nat \<Rightarrow> nat \<Rightarrow> string \<Rightarrow> string \<times> nat" where
  "generate_while e len pos string =
     (if length string < len
      then generate_while e len (pos + batch len)
             (processString (randomBytes e pos (batch len)) string alphanumeric len maxByte)
      else (string, pos))"
  by pat_completeness auto
termination
proof -
  define acc where "acc e a d = length (filter (\<lambda>b. b < maxByte) (randomBytes e a d))" for e a d
  define mu where "mu = (\<lambda>(e, len, pos, s :: string). LEAST d. len - length s \<le> acc e pos d)"
  have acc_add: "acc e a (d + d') = acc e a d + acc e (a + d) d'" for e a d d'
  proof -
    have "[a..<a + (d + d')] = [a..<a + d] @ [a + d..<a + d + d']"
      by (metis add.assoc le_add1 upt_add_eq_append)
    then show ?thesis by (simp add: acc_def randomBytes_def)
  qed
  have more: "\<exists>d. k \<le> acc e a d" for e a k
  proof (induction k)
    case 0
    show ?case by simp
  next
    case (Suc k)
    then obtain d where d: "k \<le> acc e a d" by blast
    from Rep_entropy [of e] obtain q where q: "a + d \<le> q" "Rep_entropy e q mod 256 < maxByte"
      by blast
    have "acc e (a + d) (q - (a + d) + 1) \<ge> 1"
    proof -
      have "q \<in> set [a + d..<a + d + (q - (a + d) + 1)]" using q(1) by simp
      then have "Rep_entropy e q mod 256 \<in> set (filter (\<lambda>b. b < maxByte) (randomBytes e (a + d) (q - (a + d) + 1)))"
        using q(2) unfolding randomBytes_def by (auto simp del: upt_Suc)
      then have "filter (\<lambda>b. b < maxByte) (randomBytes e (a + d) (q - (a + d) + 1)) \<noteq> []"
        by (metis empty_iff empty_set)
      then show ?thesis by (simp add: acc_def Suc_leI)
    qed
    with d have "Suc k \<le> acc e a d + acc e (a + d) (q - (a + d) + 1)"
      by linarith
    then have "Suc k \<le> acc e a (d + (q - (a + d) + 1))"
      by (simp only: acc_add)
    then show ?case by blast
  qed
  have plen: "length s \<le> n \<Longrightarrow>
      length (processString buf s cs n mb) = min n (length s + length (filter (\<lambda>b. b < mb) buf))"
    for buf s cs n mb
    by (induction buf arbitrary: s) auto
  have step: "mu (e, len, pos + batch len,
                  processString (randomBytes e pos (batch len)) s alphanumeric len maxByte)
              < mu (e, len, pos, s)"
    if lt: "length s < len" for e len pos s
  proof -
    let ?B = "batch len"
    let ?s' = "processString (randomBytes e pos ?B) s alphanumeric len maxByte"
    have B: "0 < ?B"
    proof -
      have "maxByte = 248" by (simp add: maxByte_def alphanumeric_def)
      moreover have "0 < len" using lt by simp
      ultimately show ?thesis by (simp add: batch_def div_greater_zero_iff)
    qed
    have len': "length ?s' = min len (length s + acc e pos ?B)"
      using lt by (simp add: plen acc_def)
    let ?P = "\<lambda>d. len - length s \<le> acc e pos d"
    let ?d0 = "LEAST d. ?P d"
    from more [of "len - length s" e pos] have ex: "\<exists>d. ?P d" .
    then have P0: "?P ?d0" by (rule LeastI_ex)
    have d0pos: "0 < ?d0"
    proof (rule ccontr)
      assume "\<not> 0 < ?d0"
      then have "?d0 = 0" by simp
      with P0 have "len - length s \<le> acc e pos 0" by simp
      with lt show False by (simp add: acc_def randomBytes_def)
    qed
    have "(LEAST d. len - length ?s' \<le> acc e (pos + ?B) d) < ?d0"
    proof (cases "?d0 \<le> ?B")
      case True
      then obtain r where "?B = ?d0 + r" using le_Suc_ex by blast
      then have "acc e pos ?d0 \<le> acc e pos ?B" by (simp add: acc_add)
      with P0 have "len - length s \<le> acc e pos ?B" by simp
      with len' have "length ?s' = len" by simp
      then have "len - length ?s' \<le> acc e (pos + ?B) 0" by simp
      then have "(LEAST d. len - length ?s' \<le> acc e (pos + ?B) d) \<le> 0" by (rule Least_le)
      with d0pos show ?thesis by simp
    next
      case False
      then have d0: "?d0 = ?B + (?d0 - ?B)" by simp
      have "acc e pos ?d0 = acc e pos ?B + acc e (pos + ?B) (?d0 - ?B)"
        by (subst d0) (rule acc_add)
      with P0 len' have "len - length ?s' \<le> acc e (pos + ?B) (?d0 - ?B)" by arith
      then have "(LEAST d. len - length ?s' \<le> acc e (pos + ?B) d) \<le> ?d0 - ?B" by (rule Least_le)
      with B False show ?thesis by simp
    qed
    then show ?thesis by (simp add: mu_def)
  qed
  show ?thesis
    by (relation "measure mu") (simp_all add: step)
qed

declare generate_while.simps [simp del]


text \<open>The calls the service issues, in order, each with whether it succeeded. The trace is
  an observation device: no function of the model reads it.\<close>

datatype event =
    Begin
  | Debit nat int bool
  | Credit nat int bool
  | Save string bool
  | Commit
  | Rollback
  | Sleep nat

record world =
  users :: "user_row list"
  accounts :: "account list"
  transfers :: "transfer list"
  now :: nat
  script :: "fault list"
  rand :: entropy
  drawn :: nat
  trace :: "event list"

text \<open>An asynchronous computation: it runs on the world and resolves (\<open>Inr\<close>) or rejects
  (\<open>Inl\<close>), leaving the world as it made it.\<close>

type_synonym 'a io = "world \<Rightarrow> (error + 'a) \<times> world"

definition resolve :: "'a \<Rightarrow> 'a io" where
  "resolve x w = (Inr x, w)"

definition throw :: "error \<Rightarrow> 'a io" where
  "throw e w = (Inl e, w)"

text \<open>\<open>const x = await m; k x\<close>: a rejection of \<open>m\<close> skips the rest.\<close>

definition await :: "'a io \<Rightarrow> ('a \<Rightarrow> 'b io) \<Rightarrow> 'b io" where
  "await m k w = (case m w of (Inl e, w') \<Rightarrow> (Inl e, w') | (Inr x, w') \<Rightarrow> k x w')"

definition emit :: "event \<Rightarrow> world \<Rightarrow> world" where
  "emit ev w = w\<lparr>trace := trace w @ [ev]\<rparr>"

text \<open>The error, if any, with which the datastore fails step \<open>s\<close> of a transaction whose
  fate is \<open>m\<close>.\<close>

fun failure :: "fault \<Rightarrow> step \<Rightarrow> error option" where
  "failure NoFault s = None"
| "failure (Fail s' c) s = (if s' = s then Some (DriverError c) else None)"

section \<open>Collaborators of the transfer service\<close>

subsection \<open>User service\<close>

definition find_account :: "nat \<Rightarrow> account list \<Rightarrow> account option" where
  "find_account aid accs = find (\<lambda>a. account_id a = aid) accs"

definition load_user :: "bool \<Rightarrow> world \<Rightarrow> user_row \<Rightarrow> user" where
  "load_user includeAccount w r =
     \<lparr>user_id = row_id r, username = row_username r,
      account = (if includeAccount
                 then (case row_account r of None \<Rightarrow> None | Some a \<Rightarrow> find_account a (accounts w))
                 else None)\<rparr>"

text \<open>Modelled from the spec: \<open>UserService.findByUserId\<close> is not among the sources. The
  spec's Identity Resolver has \<open>resolveById(id) -> Identity\<close>, an identity with its
  associated account; \<open>null\<close> (here \<open>None\<close>) when there is no such user. It reads the
  committed tables and changes nothing.\<close>

definition findByUserId :: "nat \<Rightarrow> user option io" where
  "findByUserId uid w =
     (Inr (map_option (load_user True w) (find (\<lambda>r. row_id r = uid) (users w))), w)"

text \<open>Modelled from the spec: \<open>UserService.findByUsername\<close> is not among the sources. The
  spec has \<open>resolveByHandle(handle, includeAccount: bool) -> Identity | NotFound\<close>.\<close>

definition findByUsername :: "string \<Rightarrow> bool \<Rightarrow> user option io" where
  "findByUsername handle includeAccount w =
     (Inr (map_option (load_user includeAccount w) (find (\<lambda>r. row_username r = handle) (users w))), w)"

subsection \<open>Account service\<close>

definition adjust :: "nat \<Rightarrow> int \<Rightarrow> account list \<Rightarrow> account list" where
  "adjust aid delta accs =
     map (\<lambda>a. if account_id a = aid then a\<lparr>balance := balance a + delta\<rparr> else a) accs"

text \<open>Modelled from the spec: \<open>AccountService.debitAccount\<close> is not among the sources. The
  spec's Ledger Mutator has
  \<open>debit(accountId, amount, txHandle) -> {newBalance} | InsufficientFunds | AccountNotFound\<close>:
  it works in the caller's transaction and returns the account with its balance after
  the debit; balances are non-negative, so a debit beyond the balance is refused.\<close>

definition debitAccount :: "nat \<Rightarrow> int \<Rightarrow> fault \<Rightarrow> account io" where
  "debitAccount aid amt manager w =
     (case failure manager OnDebit of
        Some e \<Rightarrow> (Inl e, emit (Debit aid amt False) w)
      | None \<Rightarrow>
          (case find_account aid (accounts w) of
             None \<Rightarrow> (Inl AccountNotFound, emit (Debit aid amt False) w)
           | Some a \<Rightarrow>
               if balance a < amt then (Inl InsufficientFunds, emit (Debit aid amt False) w)
               else (Inr (a\<lparr>balance := balance a - amt\<rparr>),
                     emit (Debit aid amt True) (w\<lparr>accounts := adjust aid (- amt) (accounts w)\<rparr>))))"

text \<open>Modelled from the spec: \<open>AccountService.creditAccount\<close> is not among the sources. The
  spec has \<open>credit(accountId, amount, txHandle) -> {newBalance} | AccountNotFound\<close>.\<close>

definition creditAccount :: "nat \<Rightarrow> int \<Rightarrow> fault \<Rightarrow> account io" where
  "creditAccount aid amt manager w =
     (case failure manager OnCredit of
        Some e \<Rightarrow> (Inl e, emit (Credit aid amt False) w)
      | None \<Rightarrow>
          (case find_account aid (accounts w) of
             None \<Rightarrow> (Inl AccountNotFound, emit (Credit aid amt False) w)
           | Some a \<Rightarrow>
               (Inr (a\<lparr>balance := balance a + amt\<rparr>),
                emit (Credit aid amt True) (w\<lparr>accounts := adjust aid amt (accounts w)\<rparr>))))"

subsection \<open>Datastore and libraries\<close>

text \<open>\<open>manager.save(transfer)\<close>: the datastore stamps the creation time and appends the row,
  in the transaction of \<open>manager\<close>.\<close>

definition save :: "fault \<Rightarrow> transfer_draft \<Rightarrow> transfer io" where
  "save manager d w =
     (case failure manager OnSave of
        Some e \<Rightarrow> (Inl e, emit (Save (reference d) False) w)
      | None \<Rightarrow>
          (let t = \<lparr>sender = sender d, receiver = receiver d, amount = amount d,
                    reference = reference d, balanceBefore = balanceBefore d,
                    balanceAfter = balanceAfter d, createdAt = now w\<rparr>
           in (Inr t, emit (Save (reference d) True) (w\<lparr>transfers := transfers w @ [t]\<rparr>))))"

text \<open>The transaction that is opened next takes its fate from the script.\<close>

definition fate :: "world \<Rightarrow> fault" where
  "fate w = (case script w of [] \<Rightarrow> NoFault | f # _ \<Rightarrow> f)"

definition begin_tx :: "world \<Rightarrow> fault \<times> world" where
  "begin_tx w = (fate w, emit Begin (w\<lparr>script := tl (script w)\<rparr>))"

text \<open>A rollback restores the tables the transaction wrote; what happened outside the
  datastore (random draws, the clock, the trace) stays.\<close>

definition rollback :: "world \<Rightarrow> world \<Rightarrow> world" where
  "rollback w w1 = emit Rollback (w1\<lparr>accounts := accounts w, transfers := transfers w\<rparr>)"

text \<open>\<open>datasource.transaction(async (manager) => ...)\<close>: the callback runs on the
  transaction's manager; a rejection of the callback or of the commit rolls back and is
  rethrown.\<close>

definition transaction :: "(fault \<Rightarrow> 'a io) \<Rightarrow> 'a io" where
  "transaction body w =
     (case begin_tx w of
        (manager, w0) \<Rightarrow>
          (case body manager w0 of
             (Inl e, w1) \<Rightarrow> (Inl e, rollback w w1)
           | (Inr x, w1) \<Rightarrow>
               (case failure manager OnCommit of
                  Some e \<Rightarrow> (Inl e, rollback w w1)
                | None \<Rightarrow> (Inr x, emit Commit w1))))"

text \<open>\<open>randomstring.generate({length: len, charset: 'alphanumeric'})\<close>: the string that the
  loop builds from the bytes at the position of the source, which moves past the bytes
  fetched.\<close>

definition generate :: "nat \<Rightarrow> string io" where
  "generate len w =
     (case generate_while (rand w) len (drawn w) [] of
        (string, pos) \<Rightarrow> (Inr string, w\<lparr>drawn := pos\<rparr>))"

text \<open>\<open>await new Promise(resolve => setTimeout(resolve, ms))\<close>.\<close>

definition setTimeout :: "nat \<Rightarrow> unit io" where
  "setTimeout ms w = (Inr (), emit (Sleep ms) (w\<lparr>now := now w + ms\<rparr>))"

section \<open>The transfer service\<close>

subsection \<open>initiateTransfer\<close>

definition initiateTransfer :: "initiate_transfer_input \<Rightarrow> transfer io" where
  "initiateTransfer initiateTransferInput =
     transaction (\<lambda>manager.
       await (findByUserId (inp_sender initiateTransferInput)) (\<lambda>senderAccount.
       await (findByUsername (inp_receiver initiateTransferInput) True) (\<lambda>receiverAccount.
         case receiverAccount of
           None \<Rightarrow> throw RecipientNotFound
         | Some rcvr \<Rightarrow>
             (case senderAccount of
                None \<Rightarrow> throw TypeError
              | Some sndr \<Rightarrow>
                  (case account sndr of
                     None \<Rightarrow> throw TypeError
                   | Some sacc \<Rightarrow>
                       (let balanceBefore' = balance sacc in
                        await (debitAccount (account_id sacc) (inp_amount initiateTransferInput) manager)
                          (\<lambda>updatedSenderAccount.
                        (case account rcvr of
                           None \<Rightarrow> throw TypeError
                         | Some racc \<Rightarrow>
                             await (creditAccount (account_id racc) (inp_amount initiateTransferInput) manager)
                               (\<lambda>_.
                             await (generate 12) (\<lambda>reference'.
                             await (save manager
                                      \<lparr>sender = sndr, receiver = rcvr,
                                       amount = inp_amount initiateTransferInput,
                                       reference = reference',
                                       balanceBefore = balanceBefore',
                                       balanceAfter = balance updatedSenderAccount\<rparr>)
                               (\<lambda>savedTransfer. resolve savedTransfer)))))))))))"

subsection \<open>initiateTransfer while other transactions commit\<close>

text \<open>
  \<open>initiateTransfer\<close> above runs alone. The same body is modelled here with one point of
  interleaving: \<open>others\<close> is what other transactions commit to the accounts after this
  attempt has looked up its two users and before it issues its debit. The lookups are
  made through the user service, which is not given \<open>manager\<close>, so the datastore does not
  count them as reads of this transaction and raises no conflict for them. A rollback
  undoes the writes of this transaction only.
\<close>

definition commit_others :: "(account list \<Rightarrow> account list) \<Rightarrow> unit io" where
  "commit_others others w = (Inr (), w\<lparr>accounts := others (accounts w)\<rparr>)"

definition rollback_amid :: "(account list \<Rightarrow> account list) \<Rightarrow> world \<Rightarrow> world \<Rightarrow> world" where
  "rollback_amid others w w1 =
     emit Rollback (w1\<lparr>accounts := others (accounts w), transfers := transfers w\<rparr>)"

definition transaction_amid :: "(account list \<Rightarrow> account list) \<Rightarrow> (fault \<Rightarrow> 'a io) \<Rightarrow> 'a io" where
  "transaction_amid others body w =
     (case begin_tx w of
        (manager, w0) \<Rightarrow>
          (case body manager w0 of
             (Inl e, w1) \<Rightarrow> (Inl e, rollback_amid others w w1)
           | (Inr x, w1) \<Rightarrow>
               (case failure manager OnCommit of
                  Some e \<Rightarrow> (Inl e, rollback_amid others w w1)
                | None \<Rightarrow> (Inr x, emit Commit w1))))"

definition initiateTransfer_amid ::
  "(account list \<Rightarrow> account list) \<Rightarrow> initiate_transfer_input \<Rightarrow> transfer io" where
  "initiateTransfer_amid others initiateTransferInput =
     transaction_amid others (\<lambda>manager.
       await (findByUserId (inp_sender initiateTransferInput)) (\<lambda>senderAccount.
       await (findByUsername (inp_receiver initiateTransferInput) True) (\<lambda>receiverAccount.
         case receiverAccount of
           None \<Rightarrow> throw RecipientNotFound
         | Some rcvr \<Rightarrow>
             (case senderAccount of
                None \<Rightarrow> throw TypeError
              | Some sndr \<Rightarrow>
                  (case account sndr of
                     None \<Rightarrow> throw TypeError
                   | Some sacc \<Rightarrow>
                       (let balanceBefore' = balance sacc in
                        await (commit_others others) (\<lambda>_.
                        await (debitAccount (account_id sacc) (inp_amount initiateTransferInput) manager)
                          (\<lambda>updatedSenderAccount.
                        (case account rcvr of
                           None \<Rightarrow> throw TypeError
                         | Some racc \<Rightarrow>
                             await (creditAccount (account_id racc) (inp_amount initiateTransferInput) manager)
                               (\<lambda>_.
                             await (generate 12) (\<lambda>reference'.
                             await (save manager
                                      \<lparr>sender = sndr, receiver = rcvr,
                                       amount = inp_amount initiateTransferInput,
                                       reference = reference',
                                       balanceBefore = balanceBefore',
                                       balanceAfter = balance updatedSenderAccount\<rparr>)
                               (\<lambda>savedTransfer. resolve savedTransfer))))))))))))"

subsection \<open>initiateTransferWithRetry\<close>

text \<open>The promise resolves with the saved transfer, or with \<open>undefined\<close> (\<open>None\<close>) when the
  \<open>catch\<close> block falls through without returning or rethrowing.\<close>

function initiateTransferWithRetry :: "initiate_transfer_input \<Rightarrow> int \<Rightarrow> transfer option io" where
  "initiateTransferWithRetry initiateTransferInput retries w =
     (case initiateTransfer initiateTransferInput w of
        (Inr t, w') \<Rightarrow> (Inr (Some t), w')
      | (Inl e, w') \<Rightarrow>
          if error_code e = Some ''40001'' \<and> retries > 0
          then initiateTransferWithRetry initiateTransferInput (retries - 1) (snd (setTimeout 100 w'))
          else (Inr None, w'))"
  by pat_completeness auto
termination
  by (relation "measure (\<lambda>(i, r, w). nat r)") auto

declare initiateTransferWithRetry.simps [simp del]

text \<open>The default of the parameter: \<open>retries: number = 3\<close>.\<close>

definition initiateTransferWithRetry_default :: "initiate_transfer_input \<Rightarrow> transfer option io" where
  "initiateTransferWithRetry_default initiateTransferInput =
     initiateTransferWithRetry initiateTransferInput 3"

subsection \<open>buildFilter\<close>

datatype find_operator =
    MoreThanOrEqual string
  | LessThanOrEqual string
  | Between string string

record query =
  startPeriodDatetime :: "string option"
  endPeriodDatetime :: "string option"

text \<open>JavaScript's truthiness of an optional string: \<open>undefined\<close> and the empty string are
  falsy.\<close>

definition truthy :: "string option \<Rightarrow> bool" where
  "truthy v = (case v of None \<Rightarrow> False | Some s \<Rightarrow> s \<noteq> [])"

definition buildFilter :: "query \<Rightarrow> (string \<rightharpoonup> find_operator)" where
  "buildFilter q =
     (let filter0 = Map.empty;
          filter1 = (if truthy (startPeriodDatetime q)
                     then filter0(''createdAt'' \<mapsto> MoreThanOrEqual (the (startPeriodDatetime q)))
                     else filter0);
          filter2 = (if truthy (endPeriodDatetime q)
                     then filter1(''createdAt'' \<mapsto> LessThanOrEqual (the (endPeriodDatetime q)))
                     else filter1);
          filter3 = (if truthy (startPeriodDatetime q) \<and> truthy (endPeriodDatetime q)
                     then filter2(''createdAt'' \<mapsto>
                            Between (the (startPeriodDatetime q)) (the (endPeriodDatetime q)))
                     else filter2)
      in filter3)"

subsection \<open>find\<close>

record pagination =
  skip :: "nat option"
  take' :: "nat option"

record service_method_options =
  currentUser :: user
  query :: query
  pagination :: pagination

record paginated_result =
  records :: "transfer list"
  count :: nat

text \<open>
  The query builder and the datastore are libraries; they are modelled by what their
  documentation says of the calls the source makes. \<open>instant\<close> is the datastore's
  reading of a date-time literal as an instant; it is a parameter of the model, and a
  literal it cannot read fails the query (SQLSTATE 22007).
\<close>

fun where_createdAt :: "(string \<Rightarrow> nat option) \<Rightarrow> find_operator option \<Rightarrow> error + (nat \<Rightarrow> bool)" where
  "where_createdAt instant None = Inr (\<lambda>c. True)"
| "where_createdAt instant (Some (MoreThanOrEqual s)) =
     (case instant s of None \<Rightarrow> Inl (DriverError ''22007'') | Some a \<Rightarrow> Inr (\<lambda>c. a \<le> c))"
| "where_createdAt instant (Some (LessThanOrEqual s)) =
     (case instant s of None \<Rightarrow> Inl (DriverError ''22007'') | Some b \<Rightarrow> Inr (\<lambda>c. c \<le> b))"
| "where_createdAt instant (Some (Between s e)) =
     (case instant s of
        None \<Rightarrow> Inl (DriverError ''22007'')
      | Some a \<Rightarrow>
          (case instant e of
             None \<Rightarrow> Inl (DriverError ''22007'')
           | Some b \<Rightarrow> Inr (\<lambda>c. a \<le> c \<and> c \<le> b)))"

text \<open>The query builder applies an offset or a limit only when the number it was given is
  truthy: \<open>skip(0)\<close>, \<open>take(0)\<close> and an absent value apply none.\<close>

definition skip_rows :: "nat option \<Rightarrow> 'a list \<Rightarrow> 'a list" where
  "skip_rows n xs = (case n of None \<Rightarrow> xs | Some k \<Rightarrow> if k = 0 then xs else drop k xs)"

definition take_rows :: "nat option \<Rightarrow> 'a list \<Rightarrow> 'a list" where
  "take_rows n xs = (case n of None \<Rightarrow> xs | Some k \<Rightarrow> if k = 0 then xs else take k xs)"

text \<open>The rows that \<open>where(filter).andWhere('transfer.senderId = :userId OR
  transfer.receiverId = :userId')\<close> selects. The query builder joins the two conditions as
  text, without brackets around the second:
  \<open>WHERE <filter> AND transfer.senderId = :userId OR transfer.receiverId = :userId\<close>.
  In SQL \<open>AND\<close> binds tighter than \<open>OR\<close>, so the filter applies to the rows the user sent
  and not to the rows the user received.\<close>

definition matching :: "(nat \<Rightarrow> bool) \<Rightarrow> nat \<Rightarrow> transfer list \<Rightarrow> transfer list" where
  "matching p userId ts =
     filter (\<lambda>t. p (createdAt t) \<and> user_id (sender t) = userId \<or> user_id (receiver t) = userId) ts"

text \<open>\<open>orderBy('transfer.createdAt', 'DESC')\<close>. The order among rows of equal \<open>createdAt\<close> is
  the datastore's choice; it is a parameter of the model, \<open>rank\<close>: among such rows the one
  of higher rank comes first.\<close>

definition orderBy_createdAt_DESC :: "(transfer \<Rightarrow> nat) \<Rightarrow> transfer list \<Rightarrow> transfer list" where
  "orderBy_createdAt_DESC rank ts = rev (sort_key createdAt (sort_key rank ts))"

text \<open>\<open>getManyAndCount\<close> returns the page cut by \<open>skip\<close> and \<open>take\<close> and the number of all
  rows the conditions select.\<close>

definition find' ::
  "(string \<Rightarrow> nat option) \<Rightarrow> (transfer \<Rightarrow> nat) \<Rightarrow> service_method_options \<Rightarrow> world
     \<Rightarrow> error + paginated_result" where
  "find' instant rank options w =
     (let filter' = buildFilter (query options) in
      case where_createdAt instant (filter' ''createdAt'') of
        Inl e \<Rightarrow> Inl e
      | Inr p \<Rightarrow>
          (let selected = matching p (user_id (currentUser options)) (transfers w) in
           Inr \<lparr>records = take_rows (take' (pagination options))
                             (skip_rows (skip (pagination options))
                                (orderBy_createdAt_DESC rank selected)),
                count = length selected\<rparr>))"

section \<open>Observations used to state the properties\<close>

text \<open>The reference that \<open>generate 12\<close> returns when the source stands at a position, and
  the position after it; the calls issued between two worlds; the number of transactions
  opened so far (one per call of \<open>initiateTransfer\<close>).\<close>

definition reference_at :: "entropy \<Rightarrow> nat \<Rightarrow> string" where
  "reference_at e pos = fst (generate_while e 12 pos [])"

definition position_after :: "entropy \<Rightarrow> nat \<Rightarrow> nat" where
  "position_after e pos = snd (generate_while e 12 pos [])"

definition new_events :: "world \<Rightarrow> world \<Rightarrow> event list" where
  "new_events w w' = drop (length (trace w)) (trace w')"

definition attempts :: "world \<Rightarrow> nat" where
  "attempts w = length (filter (\<lambda>ev. ev = Begin) (trace w))"

text \<open>The scenario "the first \<open>n\<close> attempts each fail with a serialization conflict
  (SQLSTATE 40001)", with the 100 ms pause after each: the world in which attempt
  \<open>n + 1\<close> starts, or \<open>None\<close> when one of the \<open>n\<close> attempts ends otherwise.\<close>

fun after_conflicts :: "initiate_transfer_input \<Rightarrow> nat \<Rightarrow> world \<Rightarrow> world option" where
  "after_conflicts inp 0 w = Some w"
| "after_conflicts inp (Suc n) w =
     (case initiateTransfer inp w of
        (Inr t, w') \<Rightarrow> None
      | (Inl e, w') \<Rightarrow>
          if error_code e = Some ''40001''
          then after_conflicts inp n (snd (setTimeout 100 w'))
          else None)"

text \<open>
  The query view as the specification words it. A period parameter is present when the
  source's test \<open>if (query.startPeriodDatetime)\<close> passes: it is given and is not the empty
  string. \<open>readable\<close>: the datastore can read the period parameters that are present.
  \<open>within_period\<close>: the creation time is not before the start and not after the end,
  for each of the two that is present. \<open>visible\<close>: the viewer is the sender or the
  receiver, and the transfer is within the period. \<open>newest_first\<close>: no transfer comes
  before a newer one.
\<close>

definition readable :: "(string \<Rightarrow> nat option) \<Rightarrow> query \<Rightarrow> bool" where
  "readable instant q =
     ((truthy (startPeriodDatetime q) \<longrightarrow> instant (the (startPeriodDatetime q)) \<noteq> None) \<and>
      (truthy (endPeriodDatetime q) \<longrightarrow> instant (the (endPeriodDatetime q)) \<noteq> None))"

definition within_period :: "(string \<Rightarrow> nat option) \<Rightarrow> query \<Rightarrow> nat \<Rightarrow> bool" where
  "within_period instant q c =
     ((truthy (startPeriodDatetime q) \<longrightarrow>
         (case instant (the (startPeriodDatetime q)) of None \<Rightarrow> False | Some a \<Rightarrow> a \<le> c)) \<and>
      (truthy (endPeriodDatetime q) \<longrightarrow>
         (case instant (the (endPeriodDatetime q)) of None \<Rightarrow> False | Some b \<Rightarrow> c \<le> b)))"

definition visible :: "(string \<Rightarrow> nat option) \<Rightarrow> service_method_options \<Rightarrow> transfer \<Rightarrow> bool" where
  "visible instant options t =
     ((user_id (sender t) = user_id (currentUser options) \<or>
       user_id (receiver t) = user_id (currentUser options)) \<and>
      within_period instant (query options) (createdAt t))"

definition newest_first :: "transfer list \<Rightarrow> bool" where
  "newest_first ts = sorted_wrt (\<lambda>a b. createdAt b \<le> createdAt a) ts"

subsection \<open>The scenarios of the specification\<close>

text \<open>Two users: alice (user 1, account 10, balance 500) and bob (user 2, account 20,
  balance 50); no transfer yet; a datastore that lets every transaction through.\<close>

text \<open>Two byte streams: one that never yields an unusable byte, and one that starts with
  six of them (250 to 255).\<close>

definition steady :: entropy where
  "steady = Abs_entropy (\<lambda>i. i mod 248)"

definition bumpy :: entropy where
  "bumpy = Abs_entropy (\<lambda>i. i + 250)"

definition bank :: world where
  "bank =
     \<lparr>users = [\<lparr>row_id = 1, row_username = ''alice'', row_account = Some 10\<rparr>,
               \<lparr>row_id = 2, row_username = ''bob'', row_account = Some 20\<rparr>],
      accounts = [\<lparr>account_id = 10, balance = 500\<rparr>, \<lparr>account_id = 20, balance = 50\<rparr>],
      transfers = [], now = 1000, script = [], rand = steady, drawn = 0, trace = []\<rparr>"

definition alice :: user where
  "alice = \<lparr>user_id = 1, username = ''alice'', account = Some \<lparr>account_id = 10, balance = 500\<rparr>\<rparr>"

definition bob :: user where
  "bob = \<lparr>user_id = 2, username = ''bob'', account = Some \<lparr>account_id = 20, balance = 50\<rparr>\<rparr>"

definition to_bob :: "int \<Rightarrow> initiate_transfer_input" where
  "to_bob amt = \<lparr>inp_sender = 1, inp_receiver = ''bob'', inp_amount = amt\<rparr>"

definition to_nouser :: initiate_transfer_input where
  "to_nouser = \<lparr>inp_sender = 1, inp_receiver = ''nouser'', inp_amount = 200\<rparr>"

text \<open>The transfer that alice's request of \<open>amt\<close> to bob stores when it starts at draw
  \<open>d\<close> of the random source and at instant \<open>t\<close>.\<close>

definition alice_bob_transfer :: "int \<Rightarrow> string \<Rightarrow> nat \<Rightarrow> transfer" where
  "alice_bob_transfer amt ref t =
     \<lparr>sender = alice, receiver = bob, amount = amt, reference = ref,
      balanceBefore = 500, balanceAfter = 500 - amt, createdAt = t\<rparr>"

text \<open>A serialization conflict raised by the datastore at commit.\<close>

definition conflict :: fault where
  "conflict = Fail OnCommit ''40001''"

text \<open>The same bank when the datastore fails the commit of each of the next \<open>n\<close>
  transactions with a serialization conflict.\<close>

definition contended :: "nat \<Rightarrow> world" where
  "contended n = bank\<lparr>script := replicate n conflict\<rparr>"

text \<open>A ledger of five transfers, a datastore that reads two date literals, and the view
  that alice asks for: everything up to the end of 2024 (instant 2500), second page of
  one row.\<close>

definition carol :: user where
  "carol = \<lparr>user_id = 3, username = ''carol'', account = None\<rparr>"

definition stored :: "user \<Rightarrow> user \<Rightarrow> string \<Rightarrow> nat \<Rightarrow> transfer" where
  "stored s r ref t =
     \<lparr>sender = s, receiver = r, amount = 10, reference = ref,
      balanceBefore = 100, balanceAfter = 90, createdAt = t\<rparr>"

definition ledger :: world where
  "ledger =
     bank\<lparr>transfers := [stored alice bob ''r1'' 1000, stored bob carol ''r2'' 1200,
                          stored bob alice ''r3'' 2000, stored alice bob ''r4'' 3000,
                          stored bob alice ''r5'' 3500]\<rparr>"

definition instant0 :: "string \<Rightarrow> nat option" where
  "instant0 = map_of [(''2024-01-01'', 1500), (''2024-12-31'', 2500)]"

definition alice_view :: service_method_options where
  "alice_view =
     \<lparr>currentUser = alice,
      query = \<lparr>startPeriodDatetime = None, endPeriodDatetime = Some ''2024-12-31''\<rparr>,
      pagination = \<lparr>skip = Some 1, take' = Some 1\<rparr>\<rparr>"

section \<open>Facts about the random source\<close>

lemma maxByte_248: "maxByte = 248"
  by (simp add: maxByte_def alphanumeric_def)

lemma batch_12: "batch 12 = 13"
  by (simp add: batch_def maxByte_248)

lemma batch_pos: "0 < len \<Longrightarrow> 0 < batch len"
  by (simp add: batch_def maxByte_248 div_greater_zero_iff)

lemma randomBytes_add:
  "randomBytes e pos (m + n) = randomBytes e pos m @ randomBytes e (pos + m) n"
proof -
  have "[pos..<pos + (m + n)] = [pos..<pos + m] @ [pos + m..<pos + m + n]"
    by (metis add.assoc le_add1 upt_add_eq_append)
  then show ?thesis by (simp add: randomBytes_def)
qed

lemma processString_eq:
  "length s \<le> n \<Longrightarrow>
   processString buf s cs n mb =
     s @ map (\<lambda>b. cs ! (b mod length cs)) (take (n - length s) (filter (\<lambda>b. b < mb) buf))"
proof (induction buf arbitrary: s)
  case Nil
  then show ?case by simp
next
  case (Cons b buf)
  show ?case
  proof (cases "length s < n")
    case False
    with Cons.prems show ?thesis by simp
  next
    case True
    then obtain k where k: "n - length s = Suc k" by (metis Suc_diff_Suc)
    show ?thesis
    proof (cases "b < mb")
      case True
      from k have k': "n - Suc (length s) = k" by simp
      from \<open>length s < n\<close> have "length (s @ [cs ! (b mod length cs)]) \<le> n" by simp
      from Cons.IH [OF this] True \<open>length s < n\<close> k k' show ?thesis by simp
    next
      case False
      with Cons.IH [OF Cons.prems] True show ?thesis by simp
    qed
  qed
qed

text \<open>What the loop returns: the string completed by the first accepted bytes among those it
  fetched, in whole batches, the last of which was needed.\<close>

lemma generate_while_spec:
  assumes "length s \<le> len" "generate_while e len pos s = (s', pos')"
  shows "s' = s @ map (\<lambda>b. alphanumeric ! (b mod length alphanumeric))
                     (take (len - length s) (filter (\<lambda>b. b < maxByte) (randomBytes e pos (pos' - pos)))) \<and>
         length s' = len \<and> pos \<le> pos' \<and> batch len dvd (pos' - pos) \<and>
         (length s < len \<longrightarrow> pos < pos')"
  using assms
proof (induction e len pos s rule: generate_while.induct)
  case (1 e len pos s)
  show ?case
  proof (cases "length s < len")
    case False
    with "1.prems" show ?thesis by (simp add: generate_while.simps [of e len pos s])
  next
    case True
    let ?B = "batch len"
    let ?s1 = "processString (randomBytes e pos ?B) s alphanumeric len maxByte"
    let ?ch = "\<lambda>b. alphanumeric ! (b mod length alphanumeric)"
    let ?F1 = "filter (\<lambda>b. b < maxByte) (randomBytes e pos ?B)"
    have s1: "?s1 = s @ map ?ch (take (len - length s) ?F1)"
      using "1.prems"(1) by (rule processString_eq)
    then have l1: "length ?s1 = min len (length s + length ?F1)"
      using True by simp
    then have le1: "length ?s1 \<le> len" by simp
    from "1.prems"(2) True have rec: "generate_while e len (pos + ?B) ?s1 = (s', pos')"
      by (simp add: generate_while.simps [of e len pos s])
    note IH = "1.IH" [OF True le1 rec]
    from IH have ih: "s' = ?s1 @ map ?ch (take (len - length ?s1)
                 (filter (\<lambda>b. b < maxByte) (randomBytes e (pos + ?B) (pos' - (pos + ?B)))))"
      by (rule conjunct1)
    from IH have len: "length s' = len" and pos: "pos + ?B \<le> pos'"
      and dv: "?B dvd (pos' - (pos + ?B))"
      by blast+
    let ?F2 = "filter (\<lambda>b. b < maxByte) (randomBytes e (pos + ?B) (pos' - (pos + ?B)))"
    from pos have split: "pos' - pos = ?B + (pos' - (pos + ?B))" by simp
    have F: "filter (\<lambda>b. b < maxByte) (randomBytes e pos (pos' - pos)) = ?F1 @ ?F2"
      by (subst split) (simp add: randomBytes_add)
    have "take (len - length s) (?F1 @ ?F2) =
            take (len - length s) ?F1 @ take (len - length ?s1) ?F2"
      using l1 True by (simp add: min_def)
    with ih s1 F have "s' = s @ map ?ch (take (len - length s)
        (filter (\<lambda>b. b < maxByte) (randomBytes e pos (pos' - pos))))"
      by simp
    moreover from dv split have "?B dvd (pos' - pos)" by simp
    moreover from pos batch_pos [of len] True have "pos < pos'" by simp
    ultimately show ?thesis using len by simp
  qed
qed

text \<open>The last batch was needed: the bytes fetched before it did not complete the string.\<close>

lemma generate_while_needed:
  assumes "length s < len" "generate_while e len pos s = (s', pos')"
  shows "length s + length (filter (\<lambda>b. b < maxByte) (randomBytes e pos (pos' - pos - batch len))) < len"
  using assms
proof (induction e len pos s rule: generate_while.induct)
  case (1 e len pos s)
  let ?B = "batch len"
  let ?s1 = "processString (randomBytes e pos ?B) s alphanumeric len maxByte"
  let ?F1 = "filter (\<lambda>b. b < maxByte) (randomBytes e pos ?B)"
  note lt = "1.prems"(1)
  have "?s1 = s @ map (\<lambda>b. alphanumeric ! (b mod length alphanumeric)) (take (len - length s) ?F1)"
    using lt by (intro processString_eq) simp
  then have l1: "length ?s1 = min len (length s + length ?F1)"
    using lt by simp
  then have le1: "length ?s1 \<le> len" by simp
  from "1.prems"(2) lt have rec: "generate_while e len (pos + ?B) ?s1 = (s', pos')"
    by (simp add: generate_while.simps [of e len pos s])
  show ?case
  proof (cases "length ?s1 < len")
    case False
    with rec have "pos' = pos + ?B"
      by (simp add: generate_while.simps [of e len "pos + ?B" ?s1])
    with lt show ?thesis by (simp add: randomBytes_def)
  next
    case True
    from "1.IH" [OF lt True rec]
    have ih: "length ?s1 + length (filter (\<lambda>b. b < maxByte)
                (randomBytes e (pos + ?B) (pos' - (pos + ?B) - ?B))) < len" .
    from generate_while_spec [OF le1 rec] True
    have "pos + ?B < pos'" and "?B dvd pos' - (pos + ?B)" by blast+
    then have "?B \<le> pos' - (pos + ?B)" by (auto dest: dvd_imp_le)
    then have split: "pos' - pos - ?B = ?B + (pos' - (pos + ?B) - ?B)" by simp
    have "filter (\<lambda>b. b < maxByte) (randomBytes e pos (pos' - pos - ?B)) =
            ?F1 @ filter (\<lambda>b. b < maxByte) (randomBytes e (pos + ?B) (pos' - (pos + ?B) - ?B))"
      by (subst split) (simp add: randomBytes_add)
    moreover from l1 True have "length ?s1 = length s + length ?F1" by simp
    ultimately show ?thesis using ih by simp
  qed
qed

lemma Rep_steady: "Rep_entropy steady = (\<lambda>i. i mod 248)"
  unfolding steady_def by (rule Abs_entropy_inverse) (auto simp: maxByte_248)

lemma Rep_bumpy: "Rep_entropy bumpy = (\<lambda>i. i + 250)"
  unfolding bumpy_def
proof (rule Abs_entropy_inverse, clarify)
  fix p :: nat
  have "p \<le> 256 * p + 6" by simp
  moreover have "(256 * p + 6 + 250) mod 256 < maxByte" by (simp add: maxByte_248)
  ultimately show "\<exists>q\<ge>p. (q + 250) mod 256 < maxByte" by blast
qed

lemma upt_13: "[0..<13] = [0, 1, 2, 3, 4, 5, 6, 7, 8, 9, 10, 11, 12]"
  by code_simp

lemma randomBytes_13:
  "randomBytes e pos 13 = map (\<lambda>i. Rep_entropy e (pos + i) mod 256) [0..<13]"
proof -
  have "[pos..<pos + 13] = map (\<lambda>i. i + pos) [0..<13]"
    by (simp only: map_add_upt add.commute)
  then show ?thesis by (simp add: randomBytes_def o_def add.commute)
qed

lemma generate_while_steady:
  "generate_while steady 12 pos [] =
     (map (\<lambda>i. alphanumeric ! ((pos + i) mod 248 mod 62)) [0..<12], pos + 13)"
proof -
  let ?buf = "randomBytes steady pos 13"
  let ?s1 = "processString ?buf [] alphanumeric 12 maxByte"
  have all: "filter (\<lambda>b. b < maxByte) ?buf = ?buf"
    by (auto simp: randomBytes_def Rep_steady maxByte_248 filter_id_conv)
  have "?s1 = map (\<lambda>b. alphanumeric ! (b mod length alphanumeric)) (take 12 ?buf)"
    by (simp add: processString_eq all)
  also have "take 12 ?buf = map (\<lambda>i. (pos + i) mod 248) [0..<12]"
  proof -
    have "take 12 [0..<13::nat] = [0..<12]" by (simp only: take_upt) simp
    then show ?thesis
      by (simp only: randomBytes_13 Rep_steady take_map) simp
  qed
  finally have s1: "?s1 = map (\<lambda>i. alphanumeric ! ((pos + i) mod 248 mod 62)) [0..<12]"
    by (simp add: o_def alphanumeric_def)
  then have "length ?s1 = 12" by simp
  then have "generate_while steady 12 (pos + 13) ?s1 = (?s1, pos + 13)"
    by (simp add: generate_while.simps [of steady 12 "pos + 13"])
  then have "generate_while steady 12 pos [] = (?s1, pos + 13)"
    by (simp add: generate_while.simps [of steady 12 pos "[]"] batch_12)
  with s1 show ?thesis by simp
qed

lemma steady_tokens:
  "map (\<lambda>i. alphanumeric ! (i mod 248 mod 62)) [0..<12] = ''0123456789ab''"
  "map (\<lambda>i. alphanumeric ! ((13 + i) mod 248 mod 62)) [0..<12] = ''defghijklmno''"
  "map (\<lambda>i. alphanumeric ! ((26 + i) mod 248 mod 62)) [0..<12] = ''qrstuvwxyzAB''"
  by code_simp+

lemma bumpy_0: "generate_while bumpy 12 0 [] = (''0123456789ab'', 26)"
proof -
  have b1: "randomBytes bumpy 0 13 = [250, 251, 252, 253, 254, 255, 0, 1, 2, 3, 4, 5, 6]"
    by (simp add: randomBytes_13 Rep_bumpy upt_13)
  have b2: "randomBytes bumpy 13 13 = [7, 8, 9, 10, 11, 12, 13, 14, 15, 16, 17, 18, 19]"
    by (simp add: randomBytes_13 Rep_bumpy upt_13)
  have p1: "processString [250, 251, 252, 253, 254, 255, 0, 1, 2, 3, 4, 5, 6] [] alphanumeric 12 maxByte
              = ''0123456''"
    by (simp add: maxByte_248 alphanumeric_def)
  have p2: "processString [7, 8, 9, 10, 11, 12, 13, 14, 15, 16, 17, 18, 19] ''0123456'' alphanumeric 12 maxByte
              = ''0123456789ab''"
    by (simp add: maxByte_248 alphanumeric_def)
  have "generate_while bumpy 12 0 [] = generate_while bumpy 12 13 ''0123456''"
    unfolding generate_while.simps [of bumpy 12 0 "[]"] batch_12 b1 p1 by simp
  also have "\<dots> = generate_while bumpy 12 26 ''0123456789ab''"
    unfolding generate_while.simps [of bumpy 12 13 "''0123456''"] batch_12 b2 p2 by simp
  also have "\<dots> = (''0123456789ab'', 26)"
    by (simp add: generate_while.simps [of bumpy 12 26])
  finally show ?thesis .
qed



lemma generate_12:
  "generate 12 w =
     (Inr (reference_at (rand w) (drawn w)), w\<lparr>drawn := position_after (rand w) (drawn w)\<rparr>)"
  by (simp add: generate_def reference_at_def position_after_def split: prod.splits)

lemma steady_reference:
  "reference_at steady 0 = ''0123456789ab''" "reference_at steady 13 = ''defghijklmno''"
  "reference_at steady 26 = ''qrstuvwxyzAB''" "position_after steady pos = pos + 13"
  using generate_while_steady [of 0] generate_while_steady [of 13] generate_while_steady [of 26]
  by (simp_all add: reference_at_def position_after_def generate_while_steady steady_tokens)

lemma bumpy_reference:
  "reference_at bumpy 0 = ''0123456789ab''" "position_after bumpy 0 = 26"
  by (simp_all add: reference_at_def position_after_def bumpy_0)

lemma reference_at_spec:
  "reference_at e pos =
     map (\<lambda>b. alphanumeric ! (b mod 62))
       (take 12 (filter (\<lambda>b. b < 248)
          (map (\<lambda>i. Rep_entropy e i mod 256) [pos..<position_after e pos])))"
  "length (reference_at e pos) = 12"
  "pos < position_after e pos"
  "13 dvd position_after e pos - pos"
  "length (filter (\<lambda>b. b < 248)
     (map (\<lambda>i. Rep_entropy e i mod 256) [pos..<position_after e pos - 13])) < 12"
proof -
  obtain s' pos' where g: "generate_while e 12 pos [] = (s', pos')"
    by (cases "generate_while e 12 pos []")
  have l62: "length alphanumeric = 62" by (simp add: alphanumeric_def)
  have "length ([] :: string) \<le> 12" by simp
  note sp = generate_while_spec [OF this g, unfolded l62 maxByte_248 batch_12]
  from sp have s': "s' = map (\<lambda>b. alphanumeric ! (b mod 62))
                  (take 12 (filter (\<lambda>b. b < 248) (randomBytes e pos (pos' - pos))))"
    by simp
  from sp have len: "length s' = 12" and dv: "13 dvd pos' - pos" by blast+
  from sp have lt: "pos < pos'" by simp
  from lt have "pos + (pos' - pos) = pos'" by simp
  then have "randomBytes e pos (pos' - pos) = map (\<lambda>i. Rep_entropy e i mod 256) [pos..<pos']"
    by (simp add: randomBytes_def)
  with s' g show "reference_at e pos =
     map (\<lambda>b. alphanumeric ! (b mod 62))
       (take 12 (filter (\<lambda>b. b < 248)
          (map (\<lambda>i. Rep_entropy e i mod 256) [pos..<position_after e pos])))"
    by (simp add: reference_at_def position_after_def)
  from len g show "length (reference_at e pos) = 12" by (simp add: reference_at_def)
  from lt g show "pos < position_after e pos" by (simp add: position_after_def)
  from dv g show "13 dvd position_after e pos - pos" by (simp add: position_after_def)
  have "(0::nat) < 12" by simp
  from generate_while_needed [of "[]" 12 e pos s' pos'] g
  have "length (filter (\<lambda>b. b < 248) (randomBytes e pos (pos' - pos - 13))) < 12"
    by (simp add: maxByte_248 batch_12)
  moreover from lt dv have "13 \<le> pos' - pos" by (auto dest: dvd_imp_le)
  then have "pos + (pos' - pos - 13) = pos' - 13" by simp
  then have "randomBytes e pos (pos' - pos - 13) =
               map (\<lambda>i. Rep_entropy e i mod 256) [pos..<pos' - 13]"
    by (simp add: randomBytes_def)
  ultimately show "length (filter (\<lambda>b. b < 248)
     (map (\<lambda>i. Rep_entropy e i mod 256) [pos..<position_after e pos - 13])) < 12"
    using g by (simp add: position_after_def)
qed

lemma reference_at_charset: "set (reference_at e pos) \<subseteq> set alphanumeric"
proof -
  have "alphanumeric ! (b mod 62) \<in> set alphanumeric" for b
    by (rule nth_mem) (simp add: alphanumeric_def)
  then show ?thesis
    by (subst reference_at_spec(1)) auto
qed

section \<open>The outcomes of one attempt\<close>

lemmas tx_defs = initiateTransfer_def transaction_def await_def begin_tx_def rollback_def emit_def
      findByUserId_def findByUsername_def throw_def resolve_def debitAccount_def creditAccount_def
      generate_12 save_def Let_def

lemma find_account_id: "find_account a accs = Some x \<Longrightarrow> account_id x = a"
  by (auto simp: find_account_def find_Some_iff)

lemma find_account_self: "find_account a accs = Some x \<Longrightarrow> find_account (account_id x) accs = Some x"
  using find_account_id by fastforce

lemma find_account_adjust:
  "find_account a (adjust b d accs) =
     map_option (\<lambda>x. if a = b then x\<lparr>balance := balance x + d\<rparr> else x) (find_account a accs)"
  unfolding find_account_def adjust_def
  by (induction accs) auto

lemma account_load_user:
  "account (load_user True w r) = Some a \<Longrightarrow> find_account (account_id a) (accounts w) = Some a"
  by (auto simp: load_user_def find_account_self split: option.splits)

lemma load_user_upd [simp]:
  "load_user b (w\<lparr>script := s\<rparr>) = load_user b w"
  "load_user b (w\<lparr>trace := tr\<rparr>) = load_user b w"
  by (rule ext, simp add: load_user_def cong: if_cong option.case_cong)+

lemma initiateTransfer_cases:
  fixes inp :: initiate_transfer_input and w :: world
  defines "amt \<equiv> inp_amount inp"
  defines "snd_row \<equiv> find (\<lambda>r. row_id r = inp_sender inp) (users w)"
  defines "rcv_row \<equiv> find (\<lambda>r. row_username r = inp_receiver inp) (users w)"
  obtains
    (no_recipient)
      "rcv_row = None"
      "initiateTransfer inp w =
         (Inl RecipientNotFound, w\<lparr>script := tl (script w), trace := trace w @ [Begin, Rollback]\<rparr>)"
  | (no_sender) rrow where
      "rcv_row = Some rrow"
      "snd_row = None \<or> (\<exists>srow. snd_row = Some srow \<and> account (load_user True w srow) = None)"
      "initiateTransfer inp w =
         (Inl TypeError, w\<lparr>script := tl (script w), trace := trace w @ [Begin, Rollback]\<rparr>)"
  | (debit_failed) rrow srow sa e where
      "rcv_row = Some rrow" "snd_row = Some srow" "account (load_user True w srow) = Some sa"
      "failure (fate w) OnDebit = Some e \<or> (failure (fate w) OnDebit = None \<and> balance sa < amt \<and> e = InsufficientFunds)"
      "initiateTransfer inp w =
         (Inl e, w\<lparr>script := tl (script w),
                   trace := trace w @ [Begin, Debit (account_id sa) amt False, Rollback]\<rparr>)"
  | (no_receiver_account) rrow srow sa where
      "rcv_row = Some rrow" "snd_row = Some srow" "account (load_user True w srow) = Some sa"
      "failure (fate w) OnDebit = None" "amt \<le> balance sa"
      "account (load_user True w rrow) = None"
      "initiateTransfer inp w =
         (Inl TypeError, w\<lparr>script := tl (script w),
                   trace := trace w @ [Begin, Debit (account_id sa) amt True, Rollback]\<rparr>)"
  | (credit_failed) rrow srow sa ra e where
      "rcv_row = Some rrow" "snd_row = Some srow" "account (load_user True w srow) = Some sa"
      "failure (fate w) OnDebit = None" "amt \<le> balance sa"
      "account (load_user True w rrow) = Some ra"
      "failure (fate w) OnCredit = Some e"
      "initiateTransfer inp w =
         (Inl e, w\<lparr>script := tl (script w),
                   trace := trace w @ [Begin, Debit (account_id sa) amt True,
                                       Credit (account_id ra) amt False, Rollback]\<rparr>)"
  | (save_failed) rrow srow sa ra e where
      "rcv_row = Some rrow" "snd_row = Some srow" "account (load_user True w srow) = Some sa"
      "failure (fate w) OnDebit = None" "amt \<le> balance sa"
      "account (load_user True w rrow) = Some ra"
      "failure (fate w) OnCredit = None" "failure (fate w) OnSave = Some e"
      "initiateTransfer inp w =
         (Inl e, w\<lparr>script := tl (script w), drawn := position_after (rand w) (drawn w),
                   trace := trace w @ [Begin, Debit (account_id sa) amt True,
                                       Credit (account_id ra) amt True,
                                       Save (reference_at (rand w) (drawn w)) False,
                                       Rollback]\<rparr>)"
  | (commit_failed) rrow srow sa ra e where
      "rcv_row = Some rrow" "snd_row = Some srow" "account (load_user True w srow) = Some sa"
      "failure (fate w) OnDebit = None" "amt \<le> balance sa"
      "account (load_user True w rrow) = Some ra"
      "failure (fate w) OnCredit = None" "failure (fate w) OnSave = None"
      "failure (fate w) OnCommit = Some e"
      "initiateTransfer inp w =
         (Inl e, w\<lparr>script := tl (script w), drawn := position_after (rand w) (drawn w),
                   trace := trace w @ [Begin, Debit (account_id sa) amt True,
                                       Credit (account_id ra) amt True,
                                       Save (reference_at (rand w) (drawn w)) True,
                                       Rollback]\<rparr>)"
  | (committed) rrow srow sa ra t where
      "rcv_row = Some rrow" "snd_row = Some srow" "account (load_user True w srow) = Some sa"
      "failure (fate w) OnDebit = None" "amt \<le> balance sa"
      "account (load_user True w rrow) = Some ra"
      "failure (fate w) OnCredit = None" "failure (fate w) OnSave = None"
      "failure (fate w) OnCommit = None"
      "t = \<lparr>sender = load_user True w srow, receiver = load_user True w rrow, amount = amt,
            reference = reference_at (rand w) (drawn w),
            balanceBefore = balance sa, balanceAfter = balance sa - amt, createdAt = now w\<rparr>"
      "initiateTransfer inp w =
         (Inr t, w\<lparr>accounts := adjust (account_id ra) amt (adjust (account_id sa) (- amt) (accounts w)),
                   transfers := transfers w @ [t],
                   script := tl (script w), drawn := position_after (rand w) (drawn w),
                   trace := trace w @ [Begin, Debit (account_id sa) amt True,
                                       Credit (account_id ra) amt True,
                                       Save (reference_at (rand w) (drawn w)) True,
                                       Commit]\<rparr>)"
proof (cases rcv_row)
  case None
  then have "initiateTransfer inp w =
         (Inl RecipientNotFound, w\<lparr>script := tl (script w), trace := trace w @ [Begin, Rollback]\<rparr>)"
    by (simp add: tx_defs rcv_row_def)
  with None show thesis by (rule no_recipient)
next
  case rcv: (Some rrow)
  show thesis
  proof (cases "snd_row = None \<or> (\<exists>srow. snd_row = Some srow \<and> account (load_user True w srow) = None)")
    case True
    then have "initiateTransfer inp w =
         (Inl TypeError, w\<lparr>script := tl (script w), trace := trace w @ [Begin, Rollback]\<rparr>)"
      using rcv by (auto simp: tx_defs rcv_row_def snd_row_def)
    with rcv True show thesis by (rule no_sender)
  next
    case False
    then obtain srow sa where srow: "snd_row = Some srow" and sa: "account (load_user True w srow) = Some sa"
      by auto
    have fsa: "find_account (account_id sa) (accounts w) = Some sa"
      using sa by (rule account_load_user)
    note facts = rcv srow sa fsa
    show thesis
    proof (cases "failure (fate w) OnDebit")
      case (Some e)
      then have "initiateTransfer inp w =
         (Inl e, w\<lparr>script := tl (script w),
                   trace := trace w @ [Begin, Debit (account_id sa) amt False, Rollback]\<rparr>)"
        using facts by (simp add: tx_defs rcv_row_def snd_row_def amt_def)
      with facts Some show thesis by (intro debit_failed[of rrow srow sa e]) auto
    next
      case nd: None
      show thesis
      proof (cases "balance sa < amt")
        case True
        then have "initiateTransfer inp w =
         (Inl InsufficientFunds, w\<lparr>script := tl (script w),
                   trace := trace w @ [Begin, Debit (account_id sa) amt False, Rollback]\<rparr>)"
          using facts nd by (simp add: tx_defs rcv_row_def snd_row_def amt_def)
        with facts nd True show thesis by (intro debit_failed[of rrow srow sa InsufficientFunds]) auto
      next
        case False
        then have le: "amt \<le> balance sa" by simp
        show thesis
        proof (cases "account (load_user True w rrow)")
          case None
          then have "initiateTransfer inp w =
            (Inl TypeError, w\<lparr>script := tl (script w),
                   trace := trace w @ [Begin, Debit (account_id sa) amt True, Rollback]\<rparr>)"
            using facts nd False by (simp add: tx_defs rcv_row_def snd_row_def amt_def)
          with facts nd le None show thesis by (intro no_receiver_account[of rrow srow sa]) auto
        next
          case ra: (Some ra)
          have fra: "find_account (account_id ra) (accounts w) = Some ra"
            using ra by (rule account_load_user)
          show thesis
          proof (cases "failure (fate w) OnCredit")
            case (Some e)
            then have "initiateTransfer inp w =
               (Inl e, w\<lparr>script := tl (script w),
                   trace := trace w @ [Begin, Debit (account_id sa) amt True,
                                       Credit (account_id ra) amt False, Rollback]\<rparr>)"
              using facts nd False ra by (simp add: tx_defs rcv_row_def snd_row_def amt_def)
            with facts nd le ra Some show thesis by (intro credit_failed[of rrow srow sa ra e]) auto
          next
            case nc: None
            show thesis
            proof (cases "failure (fate w) OnSave")
              case (Some e)
              then have "initiateTransfer inp w =
                (Inl e, w\<lparr>script := tl (script w), drawn := position_after (rand w) (drawn w),
                   trace := trace w @ [Begin, Debit (account_id sa) amt True,
                                       Credit (account_id ra) amt True,
                                       Save (reference_at (rand w) (drawn w)) False,
                                       Rollback]\<rparr>)"
                using facts nd False ra fra nc
                by (simp add: tx_defs rcv_row_def snd_row_def amt_def find_account_adjust)
              with facts nd le ra nc Some show thesis by (intro save_failed[of rrow srow sa ra e]) auto
            next
              case ns: None
              show thesis
              proof (cases "failure (fate w) OnCommit")
                case (Some e)
                then have "initiateTransfer inp w =
                  (Inl e, w\<lparr>script := tl (script w), drawn := position_after (rand w) (drawn w),
                   trace := trace w @ [Begin, Debit (account_id sa) amt True,
                                       Credit (account_id ra) amt True,
                                       Save (reference_at (rand w) (drawn w)) True,
                                       Rollback]\<rparr>)"
                  using facts nd False ra fra nc ns
                  by (simp add: tx_defs rcv_row_def snd_row_def amt_def find_account_adjust)
                with facts nd le ra nc ns Some show thesis
                  by (intro commit_failed[of rrow srow sa ra e]) auto
              next
                case ncm: None
                define t where "t = \<lparr>sender = load_user True w srow, receiver = load_user True w rrow,
                  amount = amt, reference = reference_at (rand w) (drawn w),
                  balanceBefore = balance sa, balanceAfter = balance sa - amt, createdAt = now w\<rparr>"
                have "initiateTransfer inp w =
                  (Inr t, w\<lparr>accounts := adjust (account_id ra) amt (adjust (account_id sa) (- amt) (accounts w)),
                   transfers := transfers w @ [t],
                   script := tl (script w), drawn := position_after (rand w) (drawn w),
                   trace := trace w @ [Begin, Debit (account_id sa) amt True,
                                       Credit (account_id ra) amt True,
                                       Save (reference_at (rand w) (drawn w)) True,
                                       Commit]\<rparr>)"
                  using facts nd False ra fra nc ns ncm
                  by (simp add: tx_defs rcv_row_def snd_row_def amt_def find_account_adjust t_def)
                with facts nd le ra nc ns ncm t_def show thesis
                  by (intro committed[of rrow srow sa ra t]) auto
              qed
            qed
          qed
        qed
      qed
    qed
  qed
qed

section \<open>The scenarios, evaluated\<close>

lemmas scenario_defs = bank_def to_bob_def to_nouser_def alice_def bob_def alice_bob_transfer_def
  conflict_def fate_def load_user_def find_account_def adjust_def

lemma bank_to_bob_200:
  "initiateTransfer (to_bob 200) bank =
     (Inr (alice_bob_transfer 200 ''0123456789ab'' 1000),
      bank\<lparr>accounts := [\<lparr>account_id = 10, balance = 300\<rparr>, \<lparr>account_id = 20, balance = 250\<rparr>],
           transfers := [alice_bob_transfer 200 ''0123456789ab'' 1000],
           drawn := 13,
           trace := [Begin, Debit 10 200 True, Credit 20 200 True, Save ''0123456789ab'' True, Commit]\<rparr>)"
  by (simp add: tx_defs scenario_defs steady_reference)

lemma bank_fields:
  "accounts bank = [\<lparr>account_id = 10, balance = 500\<rparr>, \<lparr>account_id = 20, balance = 50\<rparr>]"
  "transfers bank = []" "trace bank = []" "now bank = 1000" "drawn bank = 0" "script bank = []"
  by (simp_all add: bank_def)

lemma bank_to_bob_600:
  "initiateTransfer (to_bob 600) bank =
     (Inl InsufficientFunds, bank\<lparr>trace := [Begin, Debit 10 600 False, Rollback]\<rparr>)"
  by (simp add: tx_defs scenario_defs)

section \<open>Facts about the collaborators\<close>

lemma sender_row_id:
  "find (\<lambda>r. row_id r = i) rows = Some r \<Longrightarrow> user_id (load_user b w r) = i"
  by (auto simp: find_Some_iff load_user_def)

lemma receiver_row_username:
  "find (\<lambda>r. row_username r = h) rows = Some r \<Longrightarrow> username (load_user b w r) = h"
  by (auto simp: find_Some_iff load_user_def)

lemma debitAccount_ok:
  assumes "find_account aid (accounts w) = Some a" "failure m OnDebit = None" "amt \<le> balance a"
  shows "debitAccount aid amt m w =
           (Inr (a\<lparr>balance := balance a - amt\<rparr>),
            emit (Debit aid amt True) (w\<lparr>accounts := adjust aid (- amt) (accounts w)\<rparr>))"
  using assms by (simp add: debitAccount_def)

section \<open>One attempt is atomic\<close>

text \<open>
  C1. For every transfer attempt, the Transfer record is persisted inside the same
  transaction as the sender debit and the receiver credit, the credit is issued only
  after the debit has succeeded, and a Transfer record exists in the store if and only if
  both the debit and the credit were applied: on any failure inside the transaction,
  neither the record nor either balance mutation is observable.

  An attempt that resolves has issued, between \<open>Begin\<close> and \<open>Commit\<close>, a successful debit
  of the sender's account, then a successful credit of the receiver's account, then the
  save of the record; the store holds the record and the accounts hold both mutations.
  An attempt that rejects ends with \<open>Rollback\<close>; its calls are a prefix of the same
  sequence, in which a credit only ever follows a successful debit; the transfers and
  the accounts are what they were.
\<close>

theorem initiateTransfer_atomic:
  "case initiateTransfer inp w of
     (Inr t, w') \<Rightarrow>
       transfers w' = transfers w @ [t] \<and>
       user_id (sender t) = inp_sender inp \<and> username (receiver t) = inp_receiver inp \<and>
       (\<exists>sa ra. account (sender t) = Some sa \<and> account (receiver t) = Some ra \<and>
          accounts w' = adjust (account_id ra) (inp_amount inp)
                          (adjust (account_id sa) (- inp_amount inp) (accounts w)) \<and>
          new_events w w' = [Begin, Debit (account_id sa) (inp_amount inp) True,
                             Credit (account_id ra) (inp_amount inp) True,
                             Save (reference t) True, Commit])
   | (Inl e, w') \<Rightarrow>
       transfers w' = transfers w \<and> accounts w' = accounts w \<and>
       (\<exists>sa ra ref.
          new_events w w' = [Begin, Rollback] \<or>
          new_events w w' = [Begin, Debit sa (inp_amount inp) False, Rollback] \<or>
          new_events w w' = [Begin, Debit sa (inp_amount inp) True, Rollback] \<or>
          new_events w w' = [Begin, Debit sa (inp_amount inp) True,
                             Credit ra (inp_amount inp) False, Rollback] \<or>
          new_events w w' = [Begin, Debit sa (inp_amount inp) True,
                             Credit ra (inp_amount inp) True, Save ref False, Rollback] \<or>
          new_events w w' = [Begin, Debit sa (inp_amount inp) True,
                             Credit ra (inp_amount inp) True, Save ref True, Rollback])"
proof (rule initiateTransfer_cases [of inp w])
  fix rrow srow :: user_row and sa ra :: account and t :: transfer
  assume "find (\<lambda>r. row_username r = inp_receiver inp) (users w) = Some rrow"
    "find (\<lambda>r. row_id r = inp_sender inp) (users w) = Some srow"
    "account (load_user True w srow) = Some sa"
    "account (load_user True w rrow) = Some ra"
    "t = \<lparr>sender = load_user True w srow, receiver = load_user True w rrow,
          amount = inp_amount inp, reference = reference_at (rand w) (drawn w),
          balanceBefore = balance sa, balanceAfter = balance sa - inp_amount inp,
          createdAt = now w\<rparr>"
    "initiateTransfer inp w =
       (Inr t, w\<lparr>accounts := adjust (account_id ra) (inp_amount inp)
                               (adjust (account_id sa) (- inp_amount inp) (accounts w)),
                 transfers := transfers w @ [t], script := tl (script w),
                 drawn := position_after (rand w) (drawn w),
                 trace := trace w @ [Begin, Debit (account_id sa) (inp_amount inp) True,
                                     Credit (account_id ra) (inp_amount inp) True,
                                     Save (reference_at (rand w) (drawn w)) True,
                                     Commit]\<rparr>)"
  then show ?thesis
    by (simp add: new_events_def sender_row_id receiver_row_username)
qed (simp_all add: new_events_def)

theorem initiateTransfer_atomic_witness:
  "fst (initiateTransfer (to_bob 200) bank) = Inr (alice_bob_transfer 200 ''0123456789ab'' 1000) \<and>
   transfers (snd (initiateTransfer (to_bob 200) bank)) = [alice_bob_transfer 200 ''0123456789ab'' 1000] \<and>
   accounts (snd (initiateTransfer (to_bob 200) bank)) =
     [\<lparr>account_id = 10, balance = 300\<rparr>, \<lparr>account_id = 20, balance = 250\<rparr>] \<and>
   new_events bank (snd (initiateTransfer (to_bob 200) bank)) =
     [Begin, Debit 10 200 True, Credit 20 200 True, Save ''0123456789ab'' True, Commit] \<and>
   fst (initiateTransfer (to_bob 600) bank) = Inl InsufficientFunds \<and>
   transfers (snd (initiateTransfer (to_bob 600) bank)) = transfers bank \<and>
   accounts (snd (initiateTransfer (to_bob 600) bank)) = accounts bank \<and>
   new_events bank (snd (initiateTransfer (to_bob 600) bank)) = [Begin, Debit 10 600 False, Rollback]"
  using initiateTransfer_atomic [where inp = "to_bob 200" and w = bank]
    initiateTransfer_atomic [where inp = "to_bob 600" and w = bank]
  by (simp add: bank_to_bob_200 bank_to_bob_600 new_events_def bank_fields)

section \<open>The balance snapshots of a stored transfer\<close>

lemma await_commit_nothing: "await (commit_others (\<lambda>accs. accs)) k = k ()"
  by (rule ext) (simp add: await_def commit_others_def)

lemma initiateTransfer_amid_alone: "initiateTransfer_amid (\<lambda>accs. accs) inp = initiateTransfer inp"
  by (rule ext)
     (simp add: initiateTransfer_amid_def initiateTransfer_def transaction_amid_def transaction_def
        rollback_amid_def rollback_def await_commit_nothing Let_def
      cong: option.case_cong prod.case_cong sum.case_cong)

text \<open>
  C5. For every successful attempt, the persisted Transfer's \<open>balanceBefore\<close> is the sender
  account's balance read inside the transaction immediately prior to the debit, its
  \<open>balanceAfter\<close> is the post-debit balance returned by the debit call, and the invariant
  \<open>balanceAfter = balanceBefore - amount\<close> holds on the persisted record.

  The code does not read \<open>balanceBefore\<close> inside the transaction: it is the balance in the
  user that \<open>findByUserId\<close> returned, a call that is not given \<open>manager\<close>, while the debit,
  the credit and the save are. The theorem states what the code does when other
  transactions commit between the lookup and the debit: \<open>balanceBefore\<close> is the balance
  \<open>a\<close> that the lookup saw, \<open>balanceAfter\<close> is computed by the debit from the balance \<open>b\<close>
  that the account has when the debit runs, and the invariant holds exactly when the
  two are the same. The witness is a transfer of 200 from a balance of 500 during which
  another transaction takes 100 from the sender: the record stored has
  \<open>balanceBefore = 500\<close> and \<open>balanceAfter = 200\<close>.
\<close>

theorem balance_snapshot_stale:
  assumes "initiateTransfer_amid others inp w = (Inr t, w')"
  shows "\<exists>u a b. fst (findByUserId (inp_sender inp) w) = Inr (Some u) \<and> account u = Some a \<and>
           find_account (account_id a) (accounts w) = Some a \<and>
           find_account (account_id a) (others (accounts w)) = Some b \<and>
           balanceBefore t = balance a \<and>
           balanceAfter t = balance b - amount t \<and>
           (balanceAfter t = balanceBefore t - amount t \<longleftrightarrow> balance b = balance a) \<and>
           t \<in> set (transfers w')"
proof -
  obtain srow where srow: "find (\<lambda>r. row_id r = inp_sender inp) (users w) = Some srow"
    using assms
    by (cases "find (\<lambda>r. row_id r = inp_sender inp) (users w)")
       (auto simp: initiateTransfer_amid_def transaction_amid_def await_def begin_tx_def
          findByUserId_def findByUsername_def throw_def emit_def
          split: option.splits prod.splits sum.splits)
  obtain sa where sa: "account (load_user True w srow) = Some sa"
    using assms srow
    by (cases "account (load_user True w srow)")
       (auto simp: initiateTransfer_amid_def transaction_amid_def await_def begin_tx_def
          findByUserId_def findByUsername_def throw_def emit_def
          split: option.splits prod.splits sum.splits)
  have fsa: "find_account (account_id sa) (accounts w) = Some sa"
    using sa by (rule account_load_user)
  obtain b where b: "find_account (account_id sa) (others (accounts w)) = Some b"
    using assms srow sa
    by (cases "find_account (account_id sa) (others (accounts w))")
       (auto simp: initiateTransfer_amid_def transaction_amid_def await_def begin_tx_def
          findByUserId_def findByUsername_def throw_def emit_def commit_others_def debitAccount_def
          split: option.splits prod.splits sum.splits)
  from assms srow sa b
  have "balanceBefore t = balance sa \<and> balanceAfter t = balance b - amount t \<and>
        t \<in> set (transfers w')"
    by (auto simp: initiateTransfer_amid_def transaction_amid_def await_def begin_tx_def
          findByUserId_def findByUsername_def throw_def resolve_def emit_def commit_others_def
          debitAccount_def creditAccount_def generate_12 save_def Let_def
          split: option.splits prod.splits sum.splits if_splits)
  moreover have "fst (findByUserId (inp_sender inp) w) = Inr (Some (load_user True w srow))"
    using srow by (simp add: findByUserId_def)
  ultimately show ?thesis
    using sa fsa b
    by (intro exI [of _ "load_user True w srow"] exI [of _ sa] exI [of _ b]) auto
qed

lemma bank_amid:
  "initiateTransfer_amid (adjust 10 (- 100)) (to_bob 200) bank =
     (Inr ((alice_bob_transfer 200 ''0123456789ab'' 1000)\<lparr>balanceAfter := 200\<rparr>),
      bank\<lparr>accounts := [\<lparr>account_id = 10, balance = 200\<rparr>, \<lparr>account_id = 20, balance = 250\<rparr>],
           transfers := [(alice_bob_transfer 200 ''0123456789ab'' 1000)\<lparr>balanceAfter := 200\<rparr>],
           drawn := 13,
           trace := [Begin, Debit 10 200 True, Credit 20 200 True, Save ''0123456789ab'' True, Commit]\<rparr>)"
  by (simp add: initiateTransfer_amid_def transaction_amid_def commit_others_def tx_defs
      scenario_defs steady_reference)

theorem balance_snapshot_stale_witness:
  "fst (initiateTransfer_amid (adjust 10 (- 100)) (to_bob 200) bank) =
     Inr ((alice_bob_transfer 200 ''0123456789ab'' 1000)\<lparr>balanceAfter := 200\<rparr>) \<and>
   amount ((alice_bob_transfer 200 ''0123456789ab'' 1000)\<lparr>balanceAfter := 200\<rparr>) = 200 \<and>
   balanceBefore ((alice_bob_transfer 200 ''0123456789ab'' 1000)\<lparr>balanceAfter := 200\<rparr>) = 500 \<and>
   balanceAfter ((alice_bob_transfer 200 ''0123456789ab'' 1000)\<lparr>balanceAfter := 200\<rparr>) = 200 \<and>
   find_account 10 (adjust 10 (- 100) (accounts bank)) = Some \<lparr>account_id = 10, balance = 400\<rparr> \<and>
   balanceAfter ((alice_bob_transfer 200 ''0123456789ab'' 1000)\<lparr>balanceAfter := 200\<rparr>) \<noteq>
     balanceBefore ((alice_bob_transfer 200 ''0123456789ab'' 1000)\<lparr>balanceAfter := 200\<rparr>) -
     amount ((alice_bob_transfer 200 ''0123456789ab'' 1000)\<lparr>balanceAfter := 200\<rparr>)"
  using balance_snapshot_stale [OF bank_amid] bank_amid
  by (simp add: alice_bob_transfer_def bank_fields find_account_def adjust_def)

section \<open>An unknown recipient\<close>

text \<open>
  C6. For every input whose receiver handle cannot be resolved, the attempt fails with
  \<open>RecipientNotFound\<close> before any mutation is issued: no debit, no credit, no Transfer
  record is persisted, and both account balances are unchanged.
\<close>

theorem recipient_not_found_no_effects:
  assumes "fst (findByUsername (inp_receiver inp) True w) = Inr None"
  shows "fst (initiateTransfer inp w) = Inl RecipientNotFound \<and>
         accounts (snd (initiateTransfer inp w)) = accounts w \<and>
         transfers (snd (initiateTransfer inp w)) = transfers w \<and>
         new_events w (snd (initiateTransfer inp w)) = [Begin, Rollback]"
proof -
  from assms have "find (\<lambda>r. row_username r = inp_receiver inp) (users w) = None"
    by (simp add: findByUsername_def)
  then have "initiateTransfer inp w =
      (Inl RecipientNotFound, w\<lparr>script := tl (script w), trace := trace w @ [Begin, Rollback]\<rparr>)"
    by (simp add: tx_defs)
  then show ?thesis by (simp add: new_events_def)
qed

theorem recipient_not_found_no_effects_witness:
  "fst (findByUsername (inp_receiver to_nouser) True bank) = Inr None \<and>
   fst (initiateTransfer to_nouser bank) = Inl RecipientNotFound \<and>
   accounts (snd (initiateTransfer to_nouser bank)) =
     [\<lparr>account_id = 10, balance = 500\<rparr>, \<lparr>account_id = 20, balance = 50\<rparr>] \<and>
   transfers (snd (initiateTransfer to_nouser bank)) = [] \<and>
   new_events bank (snd (initiateTransfer to_nouser bank)) = [Begin, Rollback]"
proof -
  have h: "fst (findByUsername (inp_receiver to_nouser) True bank) = Inr None"
    by (simp add: findByUsername_def to_nouser_def bank_def)
  show ?thesis
    using h recipient_not_found_no_effects [OF h] by (simp add: bank_fields)
qed

section \<open>Facts about the retry loop and the contended scenarios\<close>

lemma alphanumeric_nonempty: "alphanumeric \<noteq> []"
  by (simp add: alphanumeric_def)

lemma bank_to_bob_0:
  "initiateTransfer (to_bob 0) bank =
     (Inr (alice_bob_transfer 0 ''0123456789ab'' 1000),
      bank\<lparr>accounts := [\<lparr>account_id = 10, balance = 500\<rparr>, \<lparr>account_id = 20, balance = 50\<rparr>],
           transfers := [alice_bob_transfer 0 ''0123456789ab'' 1000],
           drawn := 13,
           trace := [Begin, Debit 10 0 True, Credit 20 0 True, Save ''0123456789ab'' True, Commit]\<rparr>)"
  by (simp add: tx_defs scenario_defs steady_reference)

lemma retry_resolved:
  "initiateTransfer inp w = (Inr t, w') \<Longrightarrow> initiateTransferWithRetry inp r w = (Inr (Some t), w')"
  by (simp add: initiateTransferWithRetry.simps)

lemma retry_conflict:
  "initiateTransfer inp w = (Inl e, w') \<Longrightarrow> error_code e = Some ''40001'' \<Longrightarrow> 0 < r \<Longrightarrow>
   initiateTransferWithRetry inp r w = initiateTransferWithRetry inp (r - 1) (snd (setTimeout 100 w'))"
  by (subst initiateTransferWithRetry.simps) simp

lemma retry_swallowed:
  "initiateTransfer inp w = (Inl e, w') \<Longrightarrow> \<not> (error_code e = Some ''40001'' \<and> 0 < r) \<Longrightarrow>
   initiateTransferWithRetry inp r w = (Inr None, w')"
  by (subst initiateTransferWithRetry.simps) auto

lemma retry_never_rejects: "fst (initiateTransferWithRetry inp r w) \<noteq> Inl e"
proof (induction inp r w rule: initiateTransferWithRetry.induct)
  case (1 inp r w)
  then show ?case
    by (subst initiateTransferWithRetry.simps) (auto split: prod.splits sum.splits)
qed

lemma attempt_counts:
  "attempts (snd (initiateTransfer inp w)) = Suc (attempts w) \<and>
   now (snd (initiateTransfer inp w)) = now w"
  by (rule initiateTransfer_cases [of inp w]) (simp_all add: attempts_def)

lemma setTimeout_world:
  "attempts (snd (setTimeout ms w)) = attempts w \<and> now (snd (setTimeout ms w)) = now w + ms \<and>
   accounts (snd (setTimeout ms w)) = accounts w \<and> transfers (snd (setTimeout ms w)) = transfers w"
  by (simp add: setTimeout_def emit_def attempts_def)

lemma after_conflicts_counts:
  "after_conflicts inp n w = Some wn \<Longrightarrow> attempts wn = attempts w + n \<and> now wn = now w + 100 * n"
proof (induction n arbitrary: w)
  case 0
  then show ?case by simp
next
  case (Suc n)
  obtain res w1 where a: "initiateTransfer inp w = (res, w1)" by (cases "initiateTransfer inp w")
  with Suc.prems obtain e where e: "res = Inl e" "error_code e = Some ''40001''"
    and rest: "after_conflicts inp n (snd (setTimeout 100 w1)) = Some wn"
    by (auto split: sum.splits if_splits)
  from attempt_counts [of inp w] a have "attempts w1 = Suc (attempts w)" "now w1 = now w" by simp_all
  with Suc.IH [OF rest] setTimeout_world [of 100 w1] show ?case by simp
qed

lemma retry_after_conflicts:
  "after_conflicts inp n w = Some wn \<Longrightarrow> int n \<le> r \<Longrightarrow>
   initiateTransferWithRetry inp r w = initiateTransferWithRetry inp (r - int n) wn"
proof (induction n arbitrary: w r)
  case 0
  then show ?case by simp
next
  case (Suc n)
  obtain res w1 where a: "initiateTransfer inp w = (res, w1)" by (cases "initiateTransfer inp w")
  with Suc.prems obtain e where e: "res = Inl e" "error_code e = Some ''40001''"
    and rest: "after_conflicts inp n (snd (setTimeout 100 w1)) = Some wn"
    by (auto split: sum.splits if_splits)
  from Suc.prems have r: "0 < r" "int n \<le> r - 1" by simp_all
  have "initiateTransferWithRetry inp r w = initiateTransferWithRetry inp (r - 1) (snd (setTimeout 100 w1))"
    using a e r by (simp add: retry_conflict)
  also have "\<dots> = initiateTransferWithRetry inp (r - 1 - int n) wn"
    using rest r(2) by (rule Suc.IH)
  finally show ?case by (simp add: algebra_simps)
qed

lemma bank_tables:
  "users bank = [\<lparr>row_id = 1, row_username = ''alice'', row_account = Some 10\<rparr>,
                 \<lparr>row_id = 2, row_username = ''bob'', row_account = Some 20\<rparr>]"
  "rand bank = steady"
  by (simp_all add: bank_def)

lemma to_bob_conflict:
  assumes "users w = users bank" "accounts w = accounts bank" "script w = conflict # rest" "amt \<le> 500"
  shows "initiateTransfer (to_bob amt) w =
           (Inl (DriverError ''40001''),
            w\<lparr>script := rest, drawn := position_after (rand w) (drawn w),
              trace := trace w @ [Begin, Debit 10 amt True, Credit 20 amt True,
                                  Save (reference_at (rand w) (drawn w)) True, Rollback]\<rparr>)"
  using assms
  by (simp add: tx_defs to_bob_def conflict_def fate_def load_user_def find_account_def adjust_def
      bank_fields bank_tables)

lemma to_bob_ok:
  assumes "users w = users bank" "accounts w = accounts bank" "script w = []" "amt \<le> 500"
  shows "initiateTransfer (to_bob amt) w =
           (Inr (alice_bob_transfer amt (reference_at (rand w) (drawn w)) (now w)),
            w\<lparr>accounts := [\<lparr>account_id = 10, balance = 500 - amt\<rparr>,
                            \<lparr>account_id = 20, balance = 50 + amt\<rparr>],
              transfers := transfers w @
                [alice_bob_transfer amt (reference_at (rand w) (drawn w)) (now w)],
              script := [], drawn := position_after (rand w) (drawn w),
              trace := trace w @ [Begin, Debit 10 amt True, Credit 20 amt True,
                                  Save (reference_at (rand w) (drawn w)) True, Commit]\<rparr>)"
  using assms
  by (simp add: tx_defs to_bob_def alice_def bob_def alice_bob_transfer_def fate_def load_user_def
      find_account_def adjust_def bank_fields bank_tables)

lemma contended_after_conflicts:
  assumes "users w = users bank" "accounts w = accounts bank" "rand w = steady"
    "script w = replicate n conflict @ rest"
  shows "\<exists>wn. after_conflicts (to_bob 200) n w = Some wn \<and>
              users wn = users bank \<and> accounts wn = accounts bank \<and>
              transfers wn = transfers w \<and> script wn = rest \<and> rand wn = steady \<and>
              drawn wn = drawn w + 13 * n \<and> now wn = now w + 100 * n"
  using assms
proof (induction n arbitrary: w)
  case 0
  then show ?case by simp
next
  case (Suc n)
  define w1 where "w1 = w\<lparr>script := replicate n conflict @ rest,
              drawn := position_after (rand w) (drawn w),
              trace := trace w @ [Begin, Debit 10 200 True, Credit 20 200 True,
                                  Save (reference_at (rand w) (drawn w)) True, Rollback]\<rparr>"
  have a: "initiateTransfer (to_bob 200) w = (Inl (DriverError ''40001''), w1)"
    unfolding w1_def using Suc.prems by (intro to_bob_conflict) simp_all
  define w2 where "w2 = snd (setTimeout 100 w1)"
  have w2: "users w2 = users bank" "accounts w2 = accounts bank" "rand w2 = steady"
    "script w2 = replicate n conflict @ rest" "transfers w2 = transfers w"
    "drawn w2 = drawn w + 13" "now w2 = now w + 100"
    using Suc.prems by (simp_all add: w2_def w1_def setTimeout_def emit_def steady_reference)
  from Suc.IH [OF w2(1-4)] obtain wn where
    "after_conflicts (to_bob 200) n w2 = Some wn" "users wn = users bank" "accounts wn = accounts bank"
    "transfers wn = transfers w2" "script wn = rest" "rand wn = steady"
    "drawn wn = drawn w2 + 13 * n" "now wn = now w2 + 100 * n"
    by blast
  with a w2 show ?case by (simp add: w2_def)
qed

lemma contended_fields:
  "users (contended n) = users bank" "accounts (contended n) = accounts bank"
  "script (contended n) = replicate n conflict" "transfers (contended n) = []"
  "rand (contended n) = steady" "drawn (contended n) = 0" "now (contended n) = 1000"
  "trace (contended n) = []"
  by (simp_all add: contended_def bank_def)

lemma failed_attempt_unchanged:
  "initiateTransfer inp w = (Inl e, w') \<Longrightarrow> accounts w' = accounts w \<and> transfers w' = transfers w"
  by (rule initiateTransfer_cases [of inp w]) auto

lemma after_conflicts_tables:
  "after_conflicts inp n w = Some wn \<Longrightarrow> accounts wn = accounts w \<and> transfers wn = transfers w"
proof (induction n arbitrary: w)
  case 0
  then show ?case by simp
next
  case (Suc n)
  obtain res w1 where a: "initiateTransfer inp w = (res, w1)" by (cases "initiateTransfer inp w")
  with Suc.prems obtain e where e: "res = Inl e"
    and rest: "after_conflicts inp n (snd (setTimeout 100 w1)) = Some wn"
    by (auto split: sum.splits if_splits)
  from a e failed_attempt_unchanged [of inp w e w1]
  have "accounts w1 = accounts w \<and> transfers w1 = transfers w" by simp
  with Suc.IH [OF rest] setTimeout_world [of 100 w1] show ?case by simp
qed

lemma attempts_contended: "attempts (contended n) = 0" "attempts bank = 0"
  by (simp_all add: attempts_def contended_def bank_def)

lemma bank_to_nouser:
  "initiateTransfer to_nouser bank = (Inl RecipientNotFound, bank\<lparr>trace := [Begin, Rollback]\<rparr>)"
  by (simp add: tx_defs scenario_defs)

section \<open>The reference of a transfer\<close>

text \<open>
  C7. For every attempt, the reference stored on the Transfer is a freshly generated random
  token of fixed length 12 drawn from the alphanumeric charset, generated anew per
  attempt (a retried attempt does not reuse the previous attempt's reference).

  The random source is an input of the model (\<open>rand\<close>, standing at position \<open>drawn\<close>). An
  attempt that reaches the save has fetched bytes from the source, in calls of 13: the
  reference it saves is made of the first twelve of those bytes that are below 248, each
  taken modulo 62 as an index into the character set, and the source then stands past
  the bytes fetched, also when the transaction is rolled back. No call was made beyond
  need: the bytes fetched before the last call held fewer than twelve that are below
  248. An attempt that does not
  reach the save issues no save and leaves the source where it stood. The pause before a
  retry leaves the source alone, so the next attempt reads bytes that no earlier attempt
  has read.
\<close>

theorem reference_fresh_token:
  "(case initiateTransfer inp w of
      (Inr t, w') \<Rightarrow>
        reference t =
          map (\<lambda>b. alphanumeric ! (b mod 62))
            (take 12 (filter (\<lambda>b. b < 248)
               (map (\<lambda>i. Rep_entropy (rand w) i mod 256) [drawn w..<drawn w']))) \<and>
        length (reference t) = 12 \<and> set (reference t) \<subseteq> set alphanumeric \<and>
        Save (reference t) True \<in> set (new_events w w') \<and>
        rand w' = rand w \<and> drawn w < drawn w' \<and> 13 dvd drawn w' - drawn w \<and>
        length (filter (\<lambda>b. b < 248)
          (map (\<lambda>i. Rep_entropy (rand w) i mod 256) [drawn w..<drawn w' - 13])) < 12
    | (Inl e, w') \<Rightarrow>
        rand w' = rand w \<and>
        ((\<forall>ref ok. Save ref ok \<notin> set (new_events w w')) \<and> drawn w' = drawn w \<or>
         (\<exists>ok. Save (map (\<lambda>b. alphanumeric ! (b mod 62))
                     (take 12 (filter (\<lambda>b. b < 248)
                        (map (\<lambda>i. Rep_entropy (rand w) i mod 256) [drawn w..<drawn w'])))) ok
                 \<in> set (new_events w w')) \<and>
         drawn w < drawn w' \<and> 13 dvd drawn w' - drawn w)) \<and>
   rand (snd (setTimeout ms w)) = rand w \<and> drawn (snd (setTimeout ms w)) = drawn w"
proof (rule conjI)
  show "rand (snd (setTimeout ms w)) = rand w \<and> drawn (snd (setTimeout ms w)) = drawn w"
    by (simp add: setTimeout_def emit_def)
  note spec = reference_at_spec [where e = "rand w" and pos = "drawn w"]
    reference_at_charset [where e = "rand w" and pos = "drawn w"]
  show "case initiateTransfer inp w of
      (Inr t, w') \<Rightarrow>
        reference t =
          map (\<lambda>b. alphanumeric ! (b mod 62))
            (take 12 (filter (\<lambda>b. b < 248)
               (map (\<lambda>i. Rep_entropy (rand w) i mod 256) [drawn w..<drawn w']))) \<and>
        length (reference t) = 12 \<and> set (reference t) \<subseteq> set alphanumeric \<and>
        Save (reference t) True \<in> set (new_events w w') \<and>
        rand w' = rand w \<and> drawn w < drawn w' \<and> 13 dvd drawn w' - drawn w \<and>
        length (filter (\<lambda>b. b < 248)
          (map (\<lambda>i. Rep_entropy (rand w) i mod 256) [drawn w..<drawn w' - 13])) < 12
    | (Inl e, w') \<Rightarrow>
        rand w' = rand w \<and>
        ((\<forall>ref ok. Save ref ok \<notin> set (new_events w w')) \<and> drawn w' = drawn w \<or>
         (\<exists>ok. Save (map (\<lambda>b. alphanumeric ! (b mod 62))
                     (take 12 (filter (\<lambda>b. b < 248)
                        (map (\<lambda>i. Rep_entropy (rand w) i mod 256) [drawn w..<drawn w'])))) ok
                 \<in> set (new_events w w')) \<and>
         drawn w < drawn w' \<and> 13 dvd drawn w' - drawn w)"
  proof (rule initiateTransfer_cases [of inp w])
    fix rrow srow :: user_row and sa ra :: account and e :: error
    assume "initiateTransfer inp w =
         (Inl e, w\<lparr>script := tl (script w), drawn := position_after (rand w) (drawn w),
                   trace := trace w @ [Begin, Debit (account_id sa) (inp_amount inp) True,
                                       Credit (account_id ra) (inp_amount inp) True,
                                       Save (reference_at (rand w) (drawn w)) False,
                                       Rollback]\<rparr>)"
    with spec show ?thesis
      by (simp add: new_events_def) (metis spec(1))
  next
    fix rrow srow :: user_row and sa ra :: account and e :: error
    assume "initiateTransfer inp w =
         (Inl e, w\<lparr>script := tl (script w), drawn := position_after (rand w) (drawn w),
                   trace := trace w @ [Begin, Debit (account_id sa) (inp_amount inp) True,
                                       Credit (account_id ra) (inp_amount inp) True,
                                       Save (reference_at (rand w) (drawn w)) True,
                                       Rollback]\<rparr>)"
    with spec show ?thesis
      by (simp add: new_events_def) (metis spec(1))
  next
    fix rrow srow :: user_row and sa ra :: account and t :: transfer
    assume "t = \<lparr>sender = load_user True w srow, receiver = load_user True w rrow,
            amount = inp_amount inp, reference = reference_at (rand w) (drawn w),
            balanceBefore = balance sa, balanceAfter = balance sa - inp_amount inp,
            createdAt = now w\<rparr>"
      "initiateTransfer inp w =
         (Inr t, w\<lparr>accounts := adjust (account_id ra) (inp_amount inp)
                                 (adjust (account_id sa) (- inp_amount inp) (accounts w)),
                   transfers := transfers w @ [t],
                   script := tl (script w), drawn := position_after (rand w) (drawn w),
                   trace := trace w @ [Begin, Debit (account_id sa) (inp_amount inp) True,
                                       Credit (account_id ra) (inp_amount inp) True,
                                       Save (reference_at (rand w) (drawn w)) True,
                                       Commit]\<rparr>)"
    with spec show ?thesis
      by (simp add: new_events_def)
  qed (simp_all add: new_events_def)
qed

lemma bank_bumpy:
  "initiateTransfer (to_bob 200) (bank\<lparr>rand := bumpy\<rparr>) =
     (Inr (alice_bob_transfer 200 ''0123456789ab'' 1000),
      bank\<lparr>accounts := [\<lparr>account_id = 10, balance = 300\<rparr>, \<lparr>account_id = 20, balance = 250\<rparr>],
           transfers := [alice_bob_transfer 200 ''0123456789ab'' 1000],
           rand := bumpy, drawn := 26,
           trace := [Begin, Debit 10 200 True, Credit 20 200 True, Save ''0123456789ab'' True, Commit]\<rparr>)"
  by (simp add: to_bob_ok [of "bank\<lparr>rand := bumpy\<rparr>" 200] bank_fields bumpy_reference)

theorem reference_fresh_token_witness:
  "fst (initiateTransfer (to_bob 200) bank) = Inr (alice_bob_transfer 200 ''0123456789ab'' 1000) \<and>
   reference (alice_bob_transfer 200 ''0123456789ab'' 1000) =
     map (\<lambda>b. alphanumeric ! (b mod 62))
       (take 12 (filter (\<lambda>b. b < 248) (map (\<lambda>i. Rep_entropy steady i mod 256) [0..<13]))) \<and>
   drawn (snd (initiateTransfer (to_bob 200) bank)) = 13 \<and>
   fst (initiateTransfer (to_bob 200) (bank\<lparr>rand := bumpy\<rparr>)) =
     Inr (alice_bob_transfer 200 ''0123456789ab'' 1000) \<and>
   reference (alice_bob_transfer 200 ''0123456789ab'' 1000) =
     map (\<lambda>b. alphanumeric ! (b mod 62))
       (take 12 (filter (\<lambda>b. b < 248) (map (\<lambda>i. Rep_entropy bumpy i mod 256) [0..<26]))) \<and>
   drawn (snd (initiateTransfer (to_bob 200) (bank\<lparr>rand := bumpy\<rparr>))) = 26 \<and>
   fst (initiateTransfer (to_bob 200) (contended 2)) = Inl (DriverError ''40001'') \<and>
   drawn (snd (initiateTransfer (to_bob 200) (contended 2))) = 13 \<and>
   fst (initiateTransferWithRetry (to_bob 200) 3 (contended 2)) =
     Inr (Some (alice_bob_transfer 200 ''qrstuvwxyzAB'' 1200))"
proof -
  note a = reference_fresh_token [where inp = "to_bob 200" and w = bank and ms = 100,
      unfolded bank_to_bob_200 prod.case sum.case]
  have a1: "reference (alice_bob_transfer 200 ''0123456789ab'' 1000) =
     map (\<lambda>b. alphanumeric ! (b mod 62))
       (take 12 (filter (\<lambda>b. b < 248) (map (\<lambda>i. Rep_entropy steady i mod 256) [0..<13])))"
    using a by (simp add: bank_fields bank_tables)
  note b = reference_fresh_token [where inp = "to_bob 200" and w = "bank\<lparr>rand := bumpy\<rparr>"
      and ms = 100, unfolded bank_bumpy prod.case sum.case]
  have b1: "reference (alice_bob_transfer 200 ''0123456789ab'' 1000) =
     map (\<lambda>b. alphanumeric ! (b mod 62))
       (take 12 (filter (\<lambda>b. b < 248) (map (\<lambda>i. Rep_entropy bumpy i mod 256) [0..<26])))"
    using b by (simp add: bank_fields)
  have "script (contended 2) = conflict # [conflict]"
    by (simp add: contended_fields numeral_eq_Suc)
  then have first: "initiateTransfer (to_bob 200) (contended 2) =
      (Inl (DriverError ''40001''),
       (contended 2)\<lparr>script := [conflict], drawn := 13,
          trace := [Begin, Debit 10 200 True, Credit 20 200 True,
                    Save ''0123456789ab'' True, Rollback]\<rparr>)"
    by (simp add: to_bob_conflict [of "contended 2" "[conflict]" 200] contended_fields
        steady_reference)
  have "script (contended 2) = replicate 2 conflict @ []"
    by (simp add: contended_fields)
  with contended_after_conflicts [of "contended 2" 2 "[]"]
  obtain wn where h1: "after_conflicts (to_bob 200) 2 (contended 2) = Some wn"
    and wn: "users wn = users bank" "accounts wn = accounts bank" "script wn = []"
      "rand wn = steady" "drawn wn = 26" "now wn = 1200"
    by (auto simp: contended_fields)
  from wn have third: "fst (initiateTransfer (to_bob 200) wn) =
      Inr (alice_bob_transfer 200 ''qrstuvwxyzAB'' 1200)"
    by (simp add: to_bob_ok [of wn 200] steady_reference)
  have "initiateTransferWithRetry (to_bob 200) 3 (contended 2) =
      initiateTransferWithRetry (to_bob 200) (3 - int 2) wn"
    using h1 by (rule retry_after_conflicts) simp
  with third have retried: "fst (initiateTransferWithRetry (to_bob 200) 3 (contended 2)) =
     Inr (Some (alice_bob_transfer 200 ''qrstuvwxyzAB'' 1200))"
    by (cases "initiateTransfer (to_bob 200) wn") (simp add: retry_resolved)
  from first a1 b1 retried show ?thesis
    by (simp add: bank_to_bob_200 bank_bumpy)
qed

section \<open>The amount of a transfer\<close>

text \<open>
  C8. Every Transfer record created and persisted by the engine has a positive amount: for
  every input accepted by attemptTransfer, the persisted record satisfies \<open>amount > 0\<close>.

  The claim fails: \<open>initiateTransfer\<close> checks no sign, and the debit of the spec's Ledger
  Mutator refuses only an amount beyond the balance, so a request for the amount 0 is
  carried out and stored.
\<close>

theorem zero_amount_persisted:
  "fst (initiateTransfer (to_bob 0) bank) = Inr (alice_bob_transfer 0 ''0123456789ab'' 1000) \<and>
   transfers (snd (initiateTransfer (to_bob 0) bank)) = [alice_bob_transfer 0 ''0123456789ab'' 1000] \<and>
   \<not> 0 < amount (alice_bob_transfer 0 ''0123456789ab'' 1000)"
  by (simp add: bank_to_bob_0 alice_bob_transfer_def)

text \<open>
  C8, as amended. The persisted record carries the amount of the request as it is: it is
  positive exactly when the requested amount is.
\<close>

theorem amount_as_requested:
  assumes "initiateTransfer inp w = (Inr t, w')"
  shows "amount t = inp_amount inp \<and> transfers w' = transfers w @ [t] \<and>
         (0 < amount t \<longleftrightarrow> 0 < inp_amount inp)"
  by (rule initiateTransfer_cases [of inp w]) (use assms in auto)

theorem amount_as_requested_witness:
  "initiateTransfer (to_bob 200) bank =
     (Inr (alice_bob_transfer 200 ''0123456789ab'' 1000),
      bank\<lparr>accounts := [\<lparr>account_id = 10, balance = 300\<rparr>, \<lparr>account_id = 20, balance = 250\<rparr>],
           transfers := [alice_bob_transfer 200 ''0123456789ab'' 1000],
           drawn := 13,
           trace := [Begin, Debit 10 200 True, Credit 20 200 True, Save ''0123456789ab'' True, Commit]\<rparr>) \<and>
   amount (alice_bob_transfer 200 ''0123456789ab'' 1000) = inp_amount (to_bob 200) \<and>
   0 < amount (alice_bob_transfer 200 ''0123456789ab'' 1000)"
  using amount_as_requested [OF bank_to_bob_200] bank_to_bob_200
  by (simp add: alice_bob_transfer_def to_bob_def)

section \<open>The retry loop\<close>

text \<open>
  C4. For every input, if an attempt fails with an error tagged as a
  serialization/transaction-conflict (code '40001') and retries remain (\<open>retries > 0\<close>),
  transferWithRetry waits a fixed 100ms backoff and re-invokes itself with \<open>retries - 1\<close>;
  in particular, given a conflict error on the first N attempts (N < maxRetries) and
  success on attempt N+1, it returns the successful Transfer and makes exactly N+1
  attempts.

  The second part is proved for every \<open>n \<le> retries\<close>, which includes \<open>n < retries\<close>; the
  clock has then advanced by 100 ms per failed attempt.
\<close>

theorem retry_on_conflict:
  "(initiateTransfer inp w = (Inl e, w1) \<and> error_code e = Some ''40001'' \<and> 0 < retries \<longrightarrow>
      initiateTransferWithRetry inp retries w =
        initiateTransferWithRetry inp (retries - 1) (snd (setTimeout 100 w1)) \<and>
      now (snd (setTimeout 100 w1)) = now w1 + 100 \<and>
      attempts (snd (setTimeout 100 w1)) = attempts w1) \<and>
   (after_conflicts inp n w = Some wn \<and> int n \<le> retries \<and> initiateTransfer inp wn = (Inr t, w') \<longrightarrow>
      initiateTransferWithRetry inp retries w = (Inr (Some t), w') \<and>
      attempts w' = attempts w + n + 1 \<and>
      now w' = now w + 100 * n)"
proof (intro conjI impI)
  assume a: "after_conflicts inp n w = Some wn \<and> int n \<le> retries \<and> initiateTransfer inp wn = (Inr t, w')"
  then have "initiateTransferWithRetry inp retries w = initiateTransferWithRetry inp (retries - int n) wn"
    by (intro retry_after_conflicts) simp_all
  with a show "initiateTransferWithRetry inp retries w = (Inr (Some t), w')"
    by (simp add: retry_resolved)
  from a attempt_counts [of inp wn] after_conflicts_counts [of inp n w wn]
  show "attempts w' = attempts w + n + 1" "now w' = now w + 100 * n" by simp_all
qed (simp_all add: retry_conflict setTimeout_world)

theorem retry_on_conflict_witness:
  "fst (initiateTransfer (to_bob 200) (contended 2)) = Inl (DriverError ''40001'') \<and>
   initiateTransferWithRetry (to_bob 200) 3 (contended 2) =
     initiateTransferWithRetry (to_bob 200) (3 - 1)
       (snd (setTimeout 100 (snd (initiateTransfer (to_bob 200) (contended 2))))) \<and>
   now (snd (setTimeout 100 (snd (initiateTransfer (to_bob 200) (contended 2))))) = 1100 \<and>
   fst (initiateTransferWithRetry (to_bob 200) 3 (contended 2)) =
     Inr (Some (alice_bob_transfer 200 ''qrstuvwxyzAB'' 1200)) \<and>
   attempts (snd (initiateTransferWithRetry (to_bob 200) 3 (contended 2))) = 3 \<and>
   now (snd (initiateTransferWithRetry (to_bob 200) 3 (contended 2))) = 1200"
proof -
  define w1 where "w1 = snd (initiateTransfer (to_bob 200) (contended 2))"
  have "script (contended 2) = conflict # [conflict]"
    by (simp add: contended_fields numeral_eq_Suc)
  then have first: "initiateTransfer (to_bob 200) (contended 2) = (Inl (DriverError ''40001''), w1)"
    and now1: "now w1 = 1000"
    unfolding w1_def
    by (simp_all add: to_bob_conflict [of "contended 2" "[conflict]" 200] contended_fields)
  have "script (contended 2) = replicate 2 conflict @ []"
    by (simp add: contended_fields)
  with contended_after_conflicts [of "contended 2" 2 "[]"]
  obtain wn where h1: "after_conflicts (to_bob 200) 2 (contended 2) = Some wn"
    and wn: "users wn = users bank" "accounts wn = accounts bank" "script wn = []"
      "rand wn = steady" "drawn wn = 26" "now wn = 1200"
    by (auto simp: contended_fields)
  define w' where "w' = snd (initiateTransfer (to_bob 200) wn)"
  from wn have h2: "initiateTransfer (to_bob 200) wn =
      (Inr (alice_bob_transfer 200 ''qrstuvwxyzAB'' 1200), w')"
    unfolding w'_def by (simp add: to_bob_ok [of wn 200] steady_reference)
  have A: "initiateTransfer (to_bob 200) (contended 2) = (Inl (DriverError ''40001''), w1) \<and>
           error_code (DriverError ''40001'') = Some ''40001'' \<and> (0::int) < 3"
    using first by simp
  have B: "after_conflicts (to_bob 200) 2 (contended 2) = Some wn \<and> int 2 \<le> 3 \<and>
           initiateTransfer (to_bob 200) wn = (Inr (alice_bob_transfer 200 ''qrstuvwxyzAB'' 1200), w')"
    using h1 h2 by simp
  note inst = retry_on_conflict [where inp = "to_bob 200" and w = "contended 2" and retries = 3
        and e = "DriverError ''40001''" and n = 2 and ?w1.0 = w1 and wn = wn
        and t = "alice_bob_transfer 200 ''qrstuvwxyzAB'' 1200" and w' = w']
  from inst [THEN conjunct1, THEN mp, OF A]
  have step: "initiateTransferWithRetry (to_bob 200) 3 (contended 2) =
      initiateTransferWithRetry (to_bob 200) (3 - 1) (snd (setTimeout 100 w1))"
    and pause: "now (snd (setTimeout 100 w1)) = now w1 + 100"
    by simp_all
  from inst [THEN conjunct2, THEN mp, OF B]
  have res: "initiateTransferWithRetry (to_bob 200) 3 (contended 2) =
      (Inr (Some (alice_bob_transfer 200 ''qrstuvwxyzAB'' 1200)), w')"
    and att: "attempts w' = attempts (contended 2) + 2 + 1"
    and tm: "now w' = now (contended 2) + 100 * 2"
    by simp_all
  from first have "fst (initiateTransfer (to_bob 200) (contended 2)) = Inl (DriverError ''40001'')"
    by simp
  moreover from step have "initiateTransferWithRetry (to_bob 200) 3 (contended 2) =
     initiateTransferWithRetry (to_bob 200) (3 - 1)
       (snd (setTimeout 100 (snd (initiateTransfer (to_bob 200) (contended 2)))))"
    by (simp only: w1_def)
  moreover from pause now1 have
    "now (snd (setTimeout 100 (snd (initiateTransfer (to_bob 200) (contended 2))))) = 1100"
    by (simp add: w1_def)
  moreover from res att tm have
    "fst (initiateTransferWithRetry (to_bob 200) 3 (contended 2)) =
       Inr (Some (alice_bob_transfer 200 ''qrstuvwxyzAB'' 1200))"
    "attempts (snd (initiateTransferWithRetry (to_bob 200) 3 (contended 2))) = 3"
    "now (snd (initiateTransferWithRetry (to_bob 200) 3 (contended 2))) = 1200"
    by (simp_all add: attempts_contended contended_fields)
  ultimately show ?thesis by blast
qed

text \<open>
  C2. For every input, when the single-attempt transaction fails with a
  serialization-conflict error on every attempt until the retry budget is exhausted,
  transferWithRetry propagates the final error to the caller as an explicit terminal
  failure; it never resolves silently with an undefined/empty result.

  The code does not do this. Its \<open>catch\<close> block returns only in the retry branch; once
  \<open>retries\<close> is 0 the block falls through and the promise resolves with \<open>undefined\<close>,
  although the function's documentation says \<open>@throws {Error} If all retry attempts
  fail\<close>. The theorem states what the code does: after \<open>retries\<close> conflicts and one more,
  the result is \<open>Inr None\<close>, not \<open>Inl e\<close>.
\<close>

theorem retries_exhausted_resolves_undefined:
  assumes "after_conflicts inp (nat retries) w = Some wn"
    and "initiateTransfer inp wn = (Inl e, w')"
    and "error_code e = Some ''40001''"
  shows "initiateTransferWithRetry inp retries w = (Inr None, w') \<and>
         attempts w' = attempts w + nat retries + 1 \<and>
         accounts w' = accounts w \<and> transfers w' = transfers w"
proof -
  have "initiateTransferWithRetry inp retries w = initiateTransferWithRetry inp (retries - int (nat retries)) wn"
  proof (cases "0 \<le> retries")
    case True
    with assms(1) show ?thesis by (intro retry_after_conflicts) simp_all
  next
    case False
    with assms(1) show ?thesis by simp
  qed
  also have "\<dots> = (Inr None, w')"
    using assms(2) by (rule retry_swallowed) simp
  finally have res: "initiateTransferWithRetry inp retries w = (Inr None, w')" .
  from attempt_counts [of inp wn] assms(2) after_conflicts_counts [OF assms(1)]
  have "attempts w' = attempts w + nat retries + 1" by simp
  moreover from failed_attempt_unchanged [OF assms(2)] after_conflicts_tables [OF assms(1)]
  have "accounts w' = accounts w \<and> transfers w' = transfers w" by simp
  ultimately show ?thesis using res by simp
qed

theorem retries_exhausted_resolves_undefined_witness:
  "fst (initiateTransferWithRetry (to_bob 200) 3 (contended 4)) = Inr None \<and>
   attempts (snd (initiateTransferWithRetry (to_bob 200) 3 (contended 4))) = 4 \<and>
   accounts (snd (initiateTransferWithRetry (to_bob 200) 3 (contended 4))) =
     [\<lparr>account_id = 10, balance = 500\<rparr>, \<lparr>account_id = 20, balance = 50\<rparr>] \<and>
   transfers (snd (initiateTransferWithRetry (to_bob 200) 3 (contended 4))) = [] \<and>
   fst (initiateTransferWithRetry_default (to_bob 200) (contended 4)) = Inr None"
proof -
  have "script (contended 4) = replicate (nat 3) conflict @ [conflict]"
    by (simp add: contended_fields numeral_eq_Suc)
  with contended_after_conflicts [of "contended 4" "nat 3" "[conflict]"]
  obtain wn where h1: "after_conflicts (to_bob 200) (nat 3) (contended 4) = Some wn"
    and wn: "users wn = users bank" "accounts wn = accounts bank" "script wn = [conflict]"
    by (auto simp: contended_fields)
  from wn have h2: "initiateTransfer (to_bob 200) wn =
      (Inl (DriverError ''40001''),
       wn\<lparr>script := [], drawn := position_after (rand wn) (drawn wn),
          trace := trace wn @ [Begin, Debit 10 200 True, Credit 20 200 True,
                               Save (reference_at (rand wn) (drawn wn)) True, Rollback]\<rparr>)"
    by (intro to_bob_conflict) simp_all
  have h3: "error_code (DriverError ''40001'') = Some ''40001''" by simp
  show ?thesis
    using retries_exhausted_resolves_undefined [OF h1 h2 h3]
    by (simp add: attempts_contended contended_fields bank_fields
        initiateTransferWithRetry_default_def)
qed

text \<open>
  C3. For every input, when the single-attempt transaction fails with a business error
  (RecipientNotFound or InsufficientFunds), transferWithRetry makes exactly one attempt
  (the business failure is never retried) and the business error propagates immediately
  to the caller.

  The code makes exactly one attempt and waits for nothing, but the same \<open>catch\<close> block
  swallows the business error too: the promise resolves with \<open>undefined\<close>. The theorem
  states what the code does.
\<close>

theorem business_error_one_attempt_then_undefined:
  assumes "initiateTransfer inp w = (Inl e, w')"
    and "e = RecipientNotFound \<or> e = InsufficientFunds"
  shows "initiateTransferWithRetry inp retries w = (Inr None, w') \<and>
         attempts w' = attempts w + 1 \<and> now w' = now w \<and>
         accounts w' = accounts w \<and> transfers w' = transfers w"
proof -
  from assms(2) have "\<not> (error_code e = Some ''40001'' \<and> 0 < retries)" by auto
  with assms(1) have "initiateTransferWithRetry inp retries w = (Inr None, w')"
    by (rule retry_swallowed)
  with attempt_counts [of inp w] failed_attempt_unchanged [OF assms(1)] assms(1)
  show ?thesis by simp
qed

theorem business_error_one_attempt_then_undefined_witness:
  "initiateTransfer to_nouser bank = (Inl RecipientNotFound, bank\<lparr>trace := [Begin, Rollback]\<rparr>) \<and>
   initiateTransferWithRetry to_nouser 3 bank = (Inr None, bank\<lparr>trace := [Begin, Rollback]\<rparr>) \<and>
   attempts (bank\<lparr>trace := [Begin, Rollback]\<rparr>) = 1"
  using business_error_one_attempt_then_undefined [OF bank_to_nouser, of 3] bank_to_nouser
  by (simp add: attempts_contended)

section \<open>Facts about the filter and the page\<close>

lemma buildFilter_createdAt:
  "buildFilter q ''createdAt'' =
     (if truthy (startPeriodDatetime q) \<and> truthy (endPeriodDatetime q)
      then Some (Between (the (startPeriodDatetime q)) (the (endPeriodDatetime q)))
      else if truthy (endPeriodDatetime q) then Some (LessThanOrEqual (the (endPeriodDatetime q)))
      else if truthy (startPeriodDatetime q) then Some (MoreThanOrEqual (the (startPeriodDatetime q)))
      else None)"
  by (simp add: buildFilter_def)

lemma buildFilter_other: "k \<noteq> ''createdAt'' \<Longrightarrow> buildFilter q k = None"
  by (simp add: buildFilter_def Let_def)

lemma where_createdAt_buildFilter:
  "where_createdAt instant (buildFilter q ''createdAt'') =
     (if readable instant q then Inr (within_period instant q) else Inl (DriverError ''22007''))"
  by (auto simp: buildFilter_createdAt readable_def within_period_def fun_eq_iff
      split: option.splits)

lemma newest_first_orderBy: "newest_first (orderBy_createdAt_DESC rank ts)"
proof -
  have "sorted (map createdAt (sort_key createdAt (sort_key rank ts)))" by (rule sorted_sort_key)
  then have "sorted_wrt (\<lambda>a b. createdAt a \<le> createdAt b) (sort_key createdAt (sort_key rank ts))"
    by (simp add: sorted_wrt_map)
  then show ?thesis
    by (simp add: newest_first_def orderBy_createdAt_DESC_def sorted_wrt_rev)
qed

lemma set_orderBy: "set (orderBy_createdAt_DESC rank ts) = set ts"
  by (simp add: orderBy_createdAt_DESC_def)

lemma newest_first_page: "newest_first ts \<Longrightarrow> newest_first (take_rows tk (skip_rows sk ts))"
  by (auto simp: newest_first_def take_rows_def skip_rows_def split: option.splits)

lemma set_page: "set (take_rows tk (skip_rows sk ts)) \<subseteq> set ts"
  by (auto simp: take_rows_def skip_rows_def split: option.splits dest: in_set_takeD in_set_dropD)

lemma page_explicit:
  "take_rows tk (skip_rows sk ts) =
     (case tk of None \<Rightarrow> (\<lambda>xs. xs) | Some k \<Rightarrow> if k = 0 then (\<lambda>xs. xs) else take k)
       (drop (case sk of None \<Rightarrow> 0 | Some k \<Rightarrow> k) ts)"
  by (simp add: take_rows_def skip_rows_def split: option.splits)

section \<open>The date filter\<close>

text \<open>
  C10. buildFilter produces at most one createdAt condition, with the following
  precedence: if both startPeriodDatetime and endPeriodDatetime are present the filter is
  the closed range Between(start, end); if only endPeriodDatetime is present it is
  LessThanOrEqual(end); if only startPeriodDatetime is present it is
  MoreThanOrEqual(start); if neither is present the returned filter has no createdAt
  constraint.

  A parameter is present when the source's test on it passes (\<open>truthy\<close>). The filter is
  a map, so it holds at most one condition under \<open>createdAt\<close>; the theorem gives the
  whole map, which has no other key.
\<close>

theorem buildFilter_precedence:
  "buildFilter q =
     (if truthy (startPeriodDatetime q) \<and> truthy (endPeriodDatetime q)
      then [''createdAt'' \<mapsto> Between (the (startPeriodDatetime q)) (the (endPeriodDatetime q))]
      else if truthy (endPeriodDatetime q)
      then [''createdAt'' \<mapsto> LessThanOrEqual (the (endPeriodDatetime q))]
      else if truthy (startPeriodDatetime q)
      then [''createdAt'' \<mapsto> MoreThanOrEqual (the (startPeriodDatetime q))]
      else Map.empty)"
proof (rule ext)
  fix k
  show "buildFilter q k =
     (if truthy (startPeriodDatetime q) \<and> truthy (endPeriodDatetime q)
      then [''createdAt'' \<mapsto> Between (the (startPeriodDatetime q)) (the (endPeriodDatetime q))]
      else if truthy (endPeriodDatetime q)
      then [''createdAt'' \<mapsto> LessThanOrEqual (the (endPeriodDatetime q))]
      else if truthy (startPeriodDatetime q)
      then [''createdAt'' \<mapsto> MoreThanOrEqual (the (startPeriodDatetime q))]
      else Map.empty) k"
  proof (cases "k = ''createdAt''")
    case True
    then show ?thesis by (simp add: buildFilter_createdAt)
  next
    case False
    then show ?thesis by (simp add: buildFilter_other)
  qed
qed

theorem buildFilter_precedence_witness:
  "buildFilter \<lparr>startPeriodDatetime = Some ''2024-01-01'', endPeriodDatetime = Some ''2024-12-31''\<rparr> =
     [''createdAt'' \<mapsto> Between ''2024-01-01'' ''2024-12-31''] \<and>
   buildFilter \<lparr>startPeriodDatetime = None, endPeriodDatetime = Some ''2024-12-31''\<rparr> =
     [''createdAt'' \<mapsto> LessThanOrEqual ''2024-12-31''] \<and>
   buildFilter \<lparr>startPeriodDatetime = Some ''2024-01-01'', endPeriodDatetime = None\<rparr> =
     [''createdAt'' \<mapsto> MoreThanOrEqual ''2024-01-01''] \<and>
   buildFilter \<lparr>startPeriodDatetime = None, endPeriodDatetime = None\<rparr> = Map.empty"
  using buildFilter_precedence [of "\<lparr>startPeriodDatetime = Some ''2024-01-01'', endPeriodDatetime = Some ''2024-12-31''\<rparr>"]
    buildFilter_precedence [of "\<lparr>startPeriodDatetime = None, endPeriodDatetime = Some ''2024-12-31''\<rparr>"]
    buildFilter_precedence [of "\<lparr>startPeriodDatetime = Some ''2024-01-01'', endPeriodDatetime = None\<rparr>"]
    buildFilter_precedence [of "\<lparr>startPeriodDatetime = None, endPeriodDatetime = None\<rparr>"]
  by (simp add: truthy_def)

section \<open>The query view\<close>

text \<open>
  C9. For every viewer and query, the query view returns only transfers in which the viewer
  is the sender or the receiver, ordered by creation time newest-first, restricted by the
  optional date-range filter, together with a total count of the matching set that is
  unaffected by the offset/limit pagination applied to the returned page.

  The code does not restrict by the period the transfers that the viewer received. The
  viewer condition is added to the query as text without brackets, so the rows selected
  are those with "within the period and sent by the viewer, or received by the viewer".
  The theorem states what the code does: the page is cut (offset, then limit) from these
  rows in newest-first order, and the count is their number, whatever the pagination and
  whatever order the datastore gives to transfers of equal creation time. The witness is
  a view up to instant 2500 that returns a transfer received at instant 3500, which
  is not \<open>visible\<close> as the specification words it.
\<close>

theorem find_view_receiver_rows_unfiltered:
  fixes instant rank options w
  defines "viewer \<equiv> user_id (currentUser options)"
  defines "sel \<equiv> filter (\<lambda>t. within_period instant (query options) (createdAt t) \<and>
                                user_id (sender t) = viewer \<or> user_id (receiver t) = viewer)
                        (transfers w)"
  shows
  "case find' instant rank options w of
     Inr res \<Rightarrow>
       readable instant (query options) \<and>
       records res =
         (case take' (pagination options) of
            None \<Rightarrow> (\<lambda>xs. xs) | Some k \<Rightarrow> if k = 0 then (\<lambda>xs. xs) else take k)
           (drop (case skip (pagination options) of None \<Rightarrow> 0 | Some k \<Rightarrow> k)
              (rev (sort_key createdAt (sort_key rank sel)))) \<and>
       set (records res) \<subseteq> set sel \<and>
       newest_first (records res) \<and>
       count res = length sel \<and>
       (\<forall>pg rank'. map_sum id count (find' instant rank' (options\<lparr>pagination := pg\<rparr>) w) =
                     Inr (count res))
   | Inl e \<Rightarrow> e = DriverError ''22007'' \<and> \<not> readable instant (query options)"
proof (cases "readable instant (query options)")
  case True
  have m: "matching (within_period instant (query options)) (user_id (currentUser options))
             (transfers w) = sel"
    by (simp add: matching_def sel_def viewer_def)
  let ?page = "take_rows (take' (pagination options))
                 (skip_rows (skip (pagination options)) (orderBy_createdAt_DESC rank sel))"
  have "set ?page \<subseteq> set (orderBy_createdAt_DESC rank sel)" by (rule set_page)
  then have sub: "set ?page \<subseteq> set sel" by (simp add: set_orderBy)
  have nf: "newest_first ?page" by (intro newest_first_page newest_first_orderBy)
  have ex: "?page =
         (case take' (pagination options) of
            None \<Rightarrow> (\<lambda>xs. xs) | Some k \<Rightarrow> if k = 0 then (\<lambda>xs. xs) else take k)
           (drop (case skip (pagination options) of None \<Rightarrow> 0 | Some k \<Rightarrow> k)
              (rev (sort_key createdAt (sort_key rank sel))))"
    by (simp add: page_explicit orderBy_createdAt_DESC_def)
  from True sub nf ex show ?thesis
    by (simp add: find'_def where_createdAt_buildFilter m Let_def)
next
  case False
  then show ?thesis
    by (simp add: find'_def where_createdAt_buildFilter Let_def)
qed

lemma alice_view_ledger:
  "find' instant0 (\<lambda>t. 0) alice_view ledger =
     Inr \<lparr>records = [stored bob alice ''r3'' 2000], count = 3\<rparr>"
  "find' instant0 (\<lambda>t. 0) (alice_view\<lparr>pagination := \<lparr>skip = None, take' = Some 0\<rparr>\<rparr>) ledger =
     Inr \<lparr>records = [stored bob alice ''r5'' 3500, stored bob alice ''r3'' 2000,
                      stored alice bob ''r1'' 1000], count = 3\<rparr>"
  by (simp_all add: find'_def alice_view_def ledger_def instant0_def buildFilter_createdAt truthy_def
      matching_def orderBy_createdAt_DESC_def take_rows_def skip_rows_def stored_def
      alice_def bob_def carol_def Let_def)

lemma r5_not_visible: "\<not> visible instant0 alice_view (stored bob alice ''r5'' 3500)"
  by (simp add: visible_def within_period_def alice_view_def instant0_def truthy_def stored_def)

theorem find_view_receiver_rows_unfiltered_witness:
  "find' instant0 (\<lambda>t. 0) alice_view ledger =
     Inr \<lparr>records = [stored bob alice ''r3'' 2000], count = 3\<rparr> \<and>
   find' instant0 (\<lambda>t. 0) (alice_view\<lparr>pagination := \<lparr>skip = None, take' = Some 0\<rparr>\<rparr>) ledger =
     Inr \<lparr>records = [stored bob alice ''r5'' 3500, stored bob alice ''r3'' 2000,
                      stored alice bob ''r1'' 1000], count = 3\<rparr> \<and>
   \<not> visible instant0 alice_view (stored bob alice ''r5'' 3500) \<and>
   length (filter (visible instant0 alice_view) (transfers ledger)) = 2 \<and>
   readable instant0 (query alice_view) \<and>
   newest_first [stored bob alice ''r5'' 3500, stored bob alice ''r3'' 2000,
                 stored alice bob ''r1'' 1000]"
proof -
  note inst = find_view_receiver_rows_unfiltered
      [where instant = instant0 and rank = "\<lambda>t. 0" and w = ledger
         and options = "alice_view\<lparr>pagination := \<lparr>skip = None, take' = Some 0\<rparr>\<rparr>",
       unfolded alice_view_ledger sum.case paginated_result.select_convs]
  from inst have "readable instant0 (query (alice_view\<lparr>pagination := \<lparr>skip = None, take' = Some 0\<rparr>\<rparr>))"
    by blast
  then have r: "readable instant0 (query alice_view)" by simp
  from inst have nf: "newest_first [stored bob alice ''r5'' 3500, stored bob alice ''r3'' 2000,
                 stored alice bob ''r1'' 1000]"
    by blast
  have v: "length (filter (visible instant0 alice_view) (transfers ledger)) = 2"
    by (simp add: visible_def within_period_def alice_view_def instant0_def truthy_def stored_def
        ledger_def alice_def bob_def carol_def)
  from r nf v alice_view_ledger r5_not_visible show ?thesis by blast
qed

end
